theory Spec2Isabelle
  imports Complex_Main "HOL-Library.Monad_Syntax" "HOL-Library.Char_ord" "HOL-Library.List_Lexorder"
begin

section \<open>Quantities and geometry\<close>

text \<open>
  The plugin of \<^verbatim>\<open>ksp_plugin/plugin.cpp\<close> works on dimensional quantities that are
  doubles underneath.  A quantity is embedded as the real number that the double
  denotes, so that the comparisons of the code are the comparisons of these reals.  An
  \<^verbatim>\<open>Instant\<close> is the number of seconds since the epoch, an \<^verbatim>\<open>Angle\<close> a number of
  radians.  A GUID is a \<^verbatim>\<open>std::string\<close>, an \<^verbatim>\<open>Index\<close> an \<^verbatim>\<open>int\<close>.
\<close>

type_synonym Instant = real
type_synonym Time = real
type_synonym Angle = real
type_synonym GravitationalParameter = real
type_synonym GUID = string
type_synonym Index = int

text \<open>The three coordinates of a vector or of a point.\<close>

datatype R3 = R3 real real real

text \<open>Position and velocity; a relative one is a displacement and a velocity.\<close>

datatype DegreesOfFreedom = DegreesOfFreedom (position: R3) (velocity: R3)

datatype RelativeDegreesOfFreedom =
  RelativeDegreesOfFreedom (displacement: R3) (relative_velocity: R3)

text \<open>
  Modelled from the spec: \<^verbatim>\<open>geometry::Permutation\<close> and \<^verbatim>\<open>geometry::Rotation\<close> are not
  under src/.  The looking-glass \<^verbatim>\<open>kSunLookingGlass\<close> is the coordinate permutation
  \<^verbatim>\<open>XZY\<close>, the swap of the y and z axes; its \<^verbatim>\<open>Inverse()\<close> is the permutation that
  undoes it.  A permutation moves coordinates and computes nothing.  A rotation is built
  from an angle and the bivector \<^verbatim>\<open>{0, 1, 0}\<close>, so it is a rotation about the y axis: it
  is kept as its angle, \<^verbatim>\<open>Inverse()\<close> negates the angle, \<^verbatim>\<open>Identity()\<close> is the angle zero
  and the product adds the angles.
\<close>

datatype CoordinatePermutation = XYZ | XZY

fun permutation_apply :: "CoordinatePermutation \<Rightarrow> R3 \<Rightarrow> R3" where
  "permutation_apply XYZ (R3 a b c) = R3 a b c"
| "permutation_apply XZY (R3 a b c) = R3 a c b"

fun Inverse_permutation :: "CoordinatePermutation \<Rightarrow> CoordinatePermutation" where
  "Inverse_permutation XYZ = XYZ"
| "Inverse_permutation XZY = XZY"

definition kSunLookingGlass :: CoordinatePermutation where
  "kSunLookingGlass = XZY"

datatype Rotation = RotationY Angle

fun Inverse_rotation :: "Rotation \<Rightarrow> Rotation" where
  "Inverse_rotation (RotationY a) = RotationY (- a)"



text \<open>
  The arithmetic of the code is that of doubles, and it rounds.  It is a parameter of
  the model: \<open>round_double\<close> is the rounding of a real number to double precision, so
  that the sum of two doubles is \<open>round_double\<close> of the sum of the reals that they
  denote, and \<open>rotate\<close> is what the geometry library computes when it applies a rotation
  to a vector.  \<open>exact_rotation\<close> is the rotation about the y axis of the reals, which
  \<open>rotate\<close> approximates.
\<close>

record Arithmetic =
  round_double :: "real \<Rightarrow> real"
  rotate :: "Rotation \<Rightarrow> R3 \<Rightarrow> R3"

fun exact_rotation :: "Rotation \<Rightarrow> R3 \<Rightarrow> R3" where
  "exact_rotation (RotationY a) (R3 u v w) =
     R3 (u * cos a + w * sin a) v (w * cos a - u * sin a)"

fun vadd :: "Arithmetic \<Rightarrow> R3 \<Rightarrow> R3 \<Rightarrow> R3" where
  "vadd A (R3 a b c) (R3 d e f) =
     R3 (round_double A (a + d)) (round_double A (b + e)) (round_double A (c + f))"

fun vsub :: "Arithmetic \<Rightarrow> R3 \<Rightarrow> R3 \<Rightarrow> R3" where
  "vsub A (R3 a b c) (R3 d e f) =
     R3 (round_double A (a - d)) (round_double A (b - e)) (round_double A (c - f))"

text \<open>\<^verbatim>\<open>DegreesOfFreedom + RelativeDegreesOfFreedom\<close> and the difference of two
  \<^verbatim>\<open>DegreesOfFreedom\<close>.\<close>

definition dof_plus ::
  "Arithmetic \<Rightarrow> DegreesOfFreedom \<Rightarrow> RelativeDegreesOfFreedom \<Rightarrow> DegreesOfFreedom" where
  "dof_plus A d r =
     DegreesOfFreedom (vadd A (position d) (displacement r))
       (vadd A (velocity d) (relative_velocity r))"

definition dof_minus ::
  "Arithmetic \<Rightarrow> DegreesOfFreedom \<Rightarrow> DegreesOfFreedom \<Rightarrow> RelativeDegreesOfFreedom" where
  "dof_minus A d e =
     RelativeDegreesOfFreedom (vsub A (position d) (position e))
       (vsub A (velocity d) (velocity e))"

text \<open>A linear map acts on both components of relative degrees of freedom.\<close>

definition on_dof :: "(R3 \<Rightarrow> R3) \<Rightarrow> RelativeDegreesOfFreedom \<Rightarrow> RelativeDegreesOfFreedom" where
  "on_dof f d = RelativeDegreesOfFreedom (f (displacement d)) (f (relative_velocity d))"


section \<open>Trajectories\<close>

text \<open>
  Modelled from the spec: \<^verbatim>\<open>physics::Trajectory\<close> is not under src/.  A trajectory is its
  effective timeline, the samples in the order they were appended; a fork is kept as the
  timeline it shares with its parent up to the fork time, followed by its own samples.
  \<^verbatim>\<open>last()\<close> of an empty trajectory is a programmer error.  \<^verbatim>\<open>Append\<close> needs a time
  strictly greater than the last one, and \<^verbatim>\<open>Fork\<close> a time that is the time of a sample.
\<close>

type_synonym sample = "Instant \<times> DegreesOfFreedom"
type_synonym Trajectory = "sample list"

definition last_sample :: "Trajectory \<Rightarrow> sample option" where
  "last_sample tr = (if tr = [] then None else Some (last tr))"

definition last_time :: "Trajectory \<Rightarrow> Instant option" where
  "last_time tr = map_option fst (last_sample tr)"

definition last_degrees_of_freedom :: "Trajectory \<Rightarrow> DegreesOfFreedom option" where
  "last_degrees_of_freedom tr = map_option snd (last_sample tr)"

definition Append :: "Instant \<Rightarrow> DegreesOfFreedom \<Rightarrow> Trajectory \<Rightarrow> Trajectory option" where
  "Append t d tr = (if tr \<noteq> [] \<and> t \<le> fst (last tr) then None else Some (tr @ [(t, d)]))"

fun Fork :: "Instant \<Rightarrow> Trajectory \<Rightarrow> Trajectory option" where
  "Fork t [] = None"
| "Fork t (s # ss) =
     (if fst s = t then Some [s] else map_option (\<lambda>tr. s # tr) (Fork t ss))"

section \<open>Celestials and vessels\<close>

text \<open>
  \<^verbatim>\<open>ksp_plugin/celestial.hpp\<close>: the body (its gravitational parameter), the parent, which
  is null only for the sun, the history and the prolongation, both null until
  \<^verbatim>\<open>CreateHistoryAndForkProlongation\<close>.  A pointer to a celestial is embedded as the
  index under which the plugin owns it: celestials are never removed, so the two
  determine each other.
\<close>

record Celestial =
  c_body :: GravitationalParameter
  c_parent :: "Index option"
  c_history :: "Trajectory option"
  c_prolongation :: "Trajectory option"

definition new_Celestial :: "GravitationalParameter \<Rightarrow> Celestial" where
  "new_Celestial \<mu> = \<lparr>c_body = \<mu>, c_parent = None, c_history = None, c_prolongation = None\<rparr>"

definition c_CreateHistoryAndForkProlongation ::
  "Instant \<Rightarrow> DegreesOfFreedom \<Rightarrow> Celestial \<Rightarrow> Celestial option" where
  "c_CreateHistoryAndForkProlongation t d c =
     do { h \<leftarrow> Append t d [];
          f \<leftarrow> Fork t h;
          Some (c\<lparr>c_history := Some h, c_prolongation := Some f\<rparr>) }"

definition c_ResetProlongation :: "Instant \<Rightarrow> Celestial \<Rightarrow> Celestial option" where
  "c_ResetProlongation t c =
     do { h \<leftarrow> c_history c;
          f \<leftarrow> Fork t h;
          Some (c\<lparr>c_prolongation := Some f\<rparr>) }"

text \<open>
  Modelled from the spec: \<^verbatim>\<open>ksp_plugin/vessel.hpp\<close> is not under src/.  A vessel owns a
  link to its parent celestial and is uninitialized (no trajectory), unsynchronized
  (a prolongation only) or synchronized (a history, and a prolongation forked from it).
\<close>

record Vessel =
  v_parent :: Index
  v_history :: "Trajectory option"
  v_prolongation :: "Trajectory option"

definition new_Vessel :: "Index \<Rightarrow> Vessel" where
  "new_Vessel parent = \<lparr>v_parent = parent, v_history = None, v_prolongation = None\<rparr>"

definition is_initialized :: "Vessel \<Rightarrow> bool" where
  "is_initialized v = (v_prolongation v \<noteq> None)"

definition is_synchronized :: "Vessel \<Rightarrow> bool" where
  "is_synchronized v = (v_history v \<noteq> None)"

definition CreateProlongation :: "Instant \<Rightarrow> DegreesOfFreedom \<Rightarrow> Vessel \<Rightarrow> Vessel option" where
  "CreateProlongation t d v =
     do { f \<leftarrow> Append t d [];
          Some (v\<lparr>v_prolongation := Some f\<rparr>) }"

definition CreateHistoryAndForkProlongation ::
  "Instant \<Rightarrow> DegreesOfFreedom \<Rightarrow> Vessel \<Rightarrow> Vessel option" where
  "CreateHistoryAndForkProlongation t d v =
     do { h \<leftarrow> Append t d [];
          f \<leftarrow> Fork t h;
          Some (v\<lparr>v_history := Some h, v_prolongation := Some f\<rparr>) }"

definition ResetProlongation :: "Instant \<Rightarrow> Vessel \<Rightarrow> Vessel option" where
  "ResetProlongation t v =
     do { h \<leftarrow> v_history v;
          f \<leftarrow> Fork t h;
          Some (v\<lparr>v_prolongation := Some f\<rparr>) }"


section \<open>Containers and loops\<close>

text \<open>
  A \<^verbatim>\<open>std::map\<close> is an association list in key order: \<^verbatim>\<open>find\<close> is \<^const>\<open>map_of\<close>,
  \<^verbatim>\<open>emplace\<close> inserts at the key's place unless the key is there and tells whether it
  inserted, \<^verbatim>\<open>erase\<close> drops the key.
\<close>

fun insert_key :: "'k::linorder \<Rightarrow> 'v \<Rightarrow> ('k \<times> 'v) list \<Rightarrow> ('k \<times> 'v) list" where
  "insert_key k v [] = [(k, v)]"
| "insert_key k v ((k', v') # m) =
     (if k < k' then (k, v) # (k', v') # m else (k', v') # insert_key k v m)"

definition emplace :: "'k::linorder \<Rightarrow> 'v \<Rightarrow> ('k \<times> 'v) list \<Rightarrow> ('k \<times> 'v) list \<times> bool" where
  "emplace k v m = (if map_of m k = None then (insert_key k v m, True) else (m, False))"

definition erase :: "'k \<Rightarrow> ('k \<times> 'v) list \<Rightarrow> ('k \<times> 'v) list" where
  "erase k m = filter (\<lambda>kv. fst kv \<noteq> k) m"

definition modify :: "'k \<Rightarrow> ('v \<Rightarrow> 'v) \<Rightarrow> ('k \<times> 'v) list \<Rightarrow> ('k \<times> 'v) list" where
  "modify k f m = map (\<lambda>kv. if fst kv = k then (fst kv, f (snd kv)) else kv) m"

text \<open>A loop whose body may hit a fatal \<^verbatim>\<open>CHECK\<close>: \<^const>\<open>None\<close> is the aborted process.\<close>

fun for_each :: "('a \<Rightarrow> 's \<Rightarrow> 's option) \<Rightarrow> 'a list \<Rightarrow> 's \<Rightarrow> 's option" where
  "for_each body [] s = Some s"
| "for_each body (x # xs) s =
     (case body x s of None \<Rightarrow> None | Some s' \<Rightarrow> for_each body xs s')"

text \<open>
  A loop over the entries of a map that touches, at each entry chosen by \<open>S\<close>, only that
  entry's value.
\<close>

definition for_each_entry ::
  "('k \<Rightarrow> bool) \<Rightarrow> ('k \<Rightarrow> 'v \<Rightarrow> 'v option) \<Rightarrow> ('k \<times> 'v) list \<Rightarrow> ('k \<times> 'v) list option" where
  "for_each_entry S body m =
     those (map (\<lambda>kv. if S (fst kv) then map_option (Pair (fst kv)) (body (fst kv) (snd kv))
                       else Some kv) m)"

section \<open>The physics bubble\<close>

text \<open>
  Modelled from the spec: \<^verbatim>\<open>ksp_plugin/physics_bubble.hpp\<close> is not under src/.  The
  bubble keeps two snapshots.  The current one, when there is one, owns the trajectory
  of the centre of mass and, for each of its vessels, the offset of the vessel from the
  centre of mass.  The next one is what the host has added since the last advance: the
  vessels with their parts, each part a mass and degrees of freedom in \<^verbatim>\<open>World\<close>.
  A pointer to a vessel is embedded as the GUID under which the plugin owns it.
\<close>

type_synonym Part = "real \<times> DegreesOfFreedom"
type_synonym IdAndOwnedPart = "nat \<times> Part"

record FullState =
  from_centre_of_mass_of :: "(GUID \<times> RelativeDegreesOfFreedom) list"
  centre_of_mass_trajectory :: Trajectory

record PhysicsBubble =
  current_state :: "FullState option"
  next_state :: "(GUID \<times> IdAndOwnedPart list) list"

definition new_PhysicsBubble :: PhysicsBubble where
  "new_PhysicsBubble = \<lparr>current_state = None, next_state = []\<rparr>"

definition empty_bubble :: "PhysicsBubble \<Rightarrow> bool" where
  "empty_bubble b = (current_state b = None)"

definition bubble_vessels :: "PhysicsBubble \<Rightarrow> GUID list" where
  "bubble_vessels b =
     (case current_state b of None \<Rightarrow> [] | Some s \<Rightarrow> map fst (from_centre_of_mass_of s))"

definition contains :: "PhysicsBubble \<Rightarrow> GUID \<Rightarrow> bool" where
  "contains b g = (g \<in> set (bubble_vessels b))"

definition from_centre_of_mass :: "PhysicsBubble \<Rightarrow> GUID \<Rightarrow> RelativeDegreesOfFreedom option" where
  "from_centre_of_mass b g =
     do { s \<leftarrow> current_state b; map_of (from_centre_of_mass_of s) g }"

definition AddVesselToNext :: "GUID \<Rightarrow> IdAndOwnedPart list \<Rightarrow> PhysicsBubble \<Rightarrow> PhysicsBubble option" where
  "AddVesselToNext g parts b =
     (if g \<in> fst ` set (next_state b) then None
      else Some (b\<lparr>next_state := next_state b @ [(g, parts)]\<rparr>))"

text \<open>
  What the integrator and the bubble compute from masses, positions and velocities is
  floating-point physics; it is a parameter of the model.  \<open>evolve\<close> gives, for a step
  size, an initial and a final instant and the bodies with their initial degrees of
  freedom, the final degrees of freedom of the body at a position of the list.
  \<open>bubble_centre_of_mass\<close> and \<open>bubble_offset\<close> give what \<^verbatim>\<open>Prepare\<close> computes: the
  centre of mass of the next bubble in \<^verbatim>\<open>Barycentric\<close> and the offset of a vessel.

  \<open>arithmetic\<close> is the arithmetic of doubles with which the plugin computes.
\<close>

record Physics =
  arithmetic :: Arithmetic
  evolve :: "Time \<Rightarrow> Instant \<Rightarrow> Instant \<Rightarrow>
             (GravitationalParameter option \<times> DegreesOfFreedom) list \<Rightarrow> nat \<Rightarrow> DegreesOfFreedom"
  bubble_centre_of_mass :: "Rotation \<Rightarrow> Instant \<Rightarrow> Instant \<Rightarrow> FullState option \<Rightarrow>
             (GUID \<times> IdAndOwnedPart list \<times> DegreesOfFreedom) list \<Rightarrow> DegreesOfFreedom"
  bubble_offset :: "Rotation \<Rightarrow> FullState option \<Rightarrow>
             (GUID \<times> IdAndOwnedPart list \<times> DegreesOfFreedom) list \<Rightarrow> GUID \<Rightarrow> RelativeDegreesOfFreedom"

text \<open>
  \<^verbatim>\<open>Prepare\<close>: the next snapshot becomes the current one, with a centre-of-mass
  trajectory that starts at the current time; without a next snapshot the bubble becomes
  empty.  The vessels of the next snapshot are read through their pointers: a vessel that
  the plugin no longer owns, or one without a prolongation, is a fatal error here.
\<close>

definition Prepare ::
  "Physics \<Rightarrow> Rotation \<Rightarrow> Instant \<Rightarrow> Instant \<Rightarrow> (GUID \<times> Vessel) list \<Rightarrow>
   PhysicsBubble \<Rightarrow> PhysicsBubble option" where
  "Prepare \<Phi> rot current_time next_time vs b =
     (if next_state b = [] then Some (b\<lparr>current_state := None\<rparr>)
      else
        do { nxt \<leftarrow> those (map (\<lambda>gp.
                      do { v \<leftarrow> map_of vs (fst gp);
                           pr \<leftarrow> v_prolongation v;
                           d \<leftarrow> last_degrees_of_freedom pr;
                           Some (fst gp, snd gp, d) }) (next_state b));
             tr \<leftarrow> Append current_time
                     (bubble_centre_of_mass \<Phi> rot current_time next_time (current_state b) nxt) [];
             Some \<lparr>current_state = Some
                      \<lparr>from_centre_of_mass_of =
                         map (\<lambda>gp. (fst gp, bubble_offset \<Phi> rot (current_state b) nxt (fst gp)))
                           (next_state b),
                       centre_of_mass_trajectory = tr\<rparr>,
                   next_state = []\<rparr> })"


section \<open>The plugin\<close>

text \<open>
  The members of \<^verbatim>\<open>Plugin\<close> (\<^verbatim>\<open>ksp_plugin/plugin.hpp\<close>).  The three sets of vessel
  pointers are sets of GUIDs, \<^verbatim>\<open>sun_\<close> is the index of the sun, \<^verbatim>\<open>initializing_\<close> is the
  state of the monostable latch.  The two integrators and the n-body system hold no
  state of their own.
\<close>

record Plugin =
  vessels :: "(GUID \<times> Vessel) list"
  celestials :: "(Index \<times> Celestial) list"
  unsynchronized_vessels :: "GUID set"
  dirty_vessels :: "GUID set"
  kept_vessels :: "GUID set"
  bubble :: PhysicsBubble
  initializing :: bool
  planetarium_rotation :: Angle
  current_time :: Instant
  sun :: Index

definition \<Delta>t :: Time where
  "\<Delta>t = 10"

definition find_vessel_by_guid_or_die :: "Plugin \<Rightarrow> GUID \<Rightarrow> Vessel option" where
  "find_vessel_by_guid_or_die p g = map_of (vessels p) g"

definition has_dirty_vessels :: "Plugin \<Rightarrow> bool" where
  "has_dirty_vessels p = (dirty_vessels p \<noteq> {})"

definition has_unsynchronized_vessels :: "Plugin \<Rightarrow> bool" where
  "has_unsynchronized_vessels p = (unsynchronized_vessels p \<noteq> {})"

definition is_dirty :: "Plugin \<Rightarrow> GUID \<Rightarrow> bool" where
  "is_dirty p g = (g \<in> dirty_vessels p)"

definition PlanetariumRotation :: "Plugin \<Rightarrow> Rotation" where
  "PlanetariumRotation p = RotationY (planetarium_rotation p)"

definition HistoryTime :: "Plugin \<Rightarrow> Instant option" where
  "HistoryTime p =
     do { s \<leftarrow> map_of (celestials p) (sun p);
          h \<leftarrow> c_history s;
          last_time h }"

text \<open>\<^verbatim>\<open>CheckVesselInvariants\<close>: whether all its \<^verbatim>\<open>CHECK\<close>s pass for a vessel.\<close>

definition CheckVesselInvariants :: "Plugin \<Rightarrow> GUID \<Rightarrow> Vessel \<Rightarrow> bool" where
  "CheckVesselInvariants p g v =
     (is_initialized v \<and>
      (case (Option.bind (v_prolongation v) last_time, HistoryTime p) of
         (Some tp, Some h) \<Rightarrow> tp \<ge> h
       | _ \<Rightarrow> False) \<and>
      (if g \<in> unsynchronized_vessels p then \<not> is_synchronized v
       else is_synchronized v \<and> Option.bind (v_history v) last_time = HistoryTime p))"

text \<open>
  \<^verbatim>\<open>CleanUpVessels\<close>: the loop runs over the vessels the map held when it started; a
  vessel that was kept leaves \<^verbatim>\<open>kept_vessels_\<close>, any other one leaves the two sets and
  then the map.
\<close>

fun CleanUpVessels_loop :: "(GUID \<times> Vessel) list \<Rightarrow> Plugin \<Rightarrow> Plugin option" where
  "CleanUpVessels_loop [] p = Some p"
| "CleanUpVessels_loop ((g, v) # rest) p =
     (if \<not> CheckVesselInvariants p g v then None
      else if g \<in> kept_vessels p
      then CleanUpVessels_loop rest (p\<lparr>kept_vessels := kept_vessels p - {g}\<rparr>)
      else CleanUpVessels_loop rest
             (p\<lparr>unsynchronized_vessels := unsynchronized_vessels p - {g},
                dirty_vessels := dirty_vessels p - {g},
                vessels := erase g (vessels p)\<rparr>))"

definition CleanUpVessels :: "Plugin \<Rightarrow> Plugin option" where
  "CleanUpVessels p = CleanUpVessels_loop (vessels p) p"

subsection \<open>Integration\<close>

text \<open>
  A pointer to a trajectory, as \<^verbatim>\<open>NBodySystem::Trajectories\<close> holds them, names the
  object that owns the trajectory.
\<close>

datatype slot =
  CelestialHistory Index
| CelestialProlongation Index
| VesselHistory GUID
| VesselProlongation GUID
| BubbleCentreOfMass

fun get_trajectory :: "Plugin \<Rightarrow> slot \<Rightarrow> Trajectory option" where
  "get_trajectory p (CelestialHistory i) = Option.bind (map_of (celestials p) i) c_history"
| "get_trajectory p (CelestialProlongation i) = Option.bind (map_of (celestials p) i) c_prolongation"
| "get_trajectory p (VesselHistory g) = Option.bind (map_of (vessels p) g) v_history"
| "get_trajectory p (VesselProlongation g) = Option.bind (map_of (vessels p) g) v_prolongation"
| "get_trajectory p BubbleCentreOfMass =
     map_option centre_of_mass_trajectory (current_state (bubble p))"

text \<open>The body of a trajectory: massive for a celestial, massless otherwise.\<close>

fun slot_body :: "Plugin \<Rightarrow> slot \<Rightarrow> GravitationalParameter option" where
  "slot_body p (CelestialHistory i) = map_option c_body (map_of (celestials p) i)"
| "slot_body p (CelestialProlongation i) = map_option c_body (map_of (celestials p) i)"
| "slot_body p _ = None"

text \<open>Every trajectory of the plugin, rewritten by a function of its pointer.\<close>

definition map_trajectories :: "(slot \<Rightarrow> Trajectory \<Rightarrow> Trajectory) \<Rightarrow> Plugin \<Rightarrow> Plugin" where
  "map_trajectories F p =
     p\<lparr>celestials := map (\<lambda>ic. (fst ic, (snd ic)
           \<lparr>c_history := map_option (F (CelestialHistory (fst ic))) (c_history (snd ic)),
            c_prolongation :=
              map_option (F (CelestialProlongation (fst ic))) (c_prolongation (snd ic))\<rparr>))
         (celestials p),
       vessels := map (\<lambda>gv. (fst gv, (snd gv)
           \<lparr>v_history := map_option (F (VesselHistory (fst gv))) (v_history (snd gv)),
            v_prolongation :=
              map_option (F (VesselProlongation (fst gv))) (v_prolongation (snd gv))\<rparr>))
         (vessels p),
       bubble := (bubble p)\<lparr>current_state := map_option
           (\<lambda>s. s\<lparr>centre_of_mass_trajectory := F BubbleCentreOfMass (centre_of_mass_trajectory s)\<rparr>)
           (current_state (bubble p))\<rparr>\<rparr>"

definition index_of :: "'a \<Rightarrow> 'a list \<Rightarrow> nat" where
  "index_of x xs = length (takeWhile (\<lambda>y. y \<noteq> x) xs)"

text \<open>
  Modelled from the spec: \<^verbatim>\<open>NBodySystem::Integrate\<close> and the integrator are not under
  src/.  The run starts from the single instant at which all the trajectories end, so
  trajectories that end at different instants, or an empty list of them, are a fatal
  error, as are a final time before the start and a step that is not positive.  The run
  makes the full steps of \<open>\<Delta>t\<close> whose endpoint is not after \<open>tmax\<close>; when \<open>tmax\<close> is exact a
  last step of the remaining length completes it.  With the sampling period 0 that the
  plugin always passes, only the final state is produced, and it is appended to every
  trajectory at the same instant; a run that ends at the instant where it starts
  produces no step and appends nothing.  A trajectory listed twice would be appended to
  twice at the same instant, which \<^verbatim>\<open>Append\<close> refuses.
\<close>

definition Integrate ::
  "Physics \<Rightarrow> Instant \<Rightarrow> Time \<Rightarrow> bool \<Rightarrow> slot list \<Rightarrow> Plugin \<Rightarrow> Plugin option" where
  "Integrate \<Phi> tmax h tmax_is_exact trajectories p =
     do { trs \<leftarrow> those (map (get_trajectory p) trajectories);
          lasts \<leftarrow> those (map last_sample trs);
          (case lasts of
             [] \<Rightarrow> None
           | s0 # _ \<Rightarrow>
               (if (\<exists>s \<in> set lasts. fst s \<noteq> fst s0) \<or> tmax < fst s0 \<or> h \<le> 0
                   \<or> \<not> distinct trajectories
                then None
                else
                  let t0 = fst s0;
                      t_end = (if tmax_is_exact then tmax
                               else t0 + of_int \<lfloor>(tmax - t0) / h\<rfloor> * h);
                      state = zip (map (slot_body p) trajectories) (map snd lasts)
                  in if t_end = t0 then Some p
                     else Some (map_trajectories
                            (\<lambda>s tr. if s \<in> set trajectories
                                     then tr @ [(t_end, evolve \<Phi> h t0 t_end state
                                                         (index_of s trajectories))]
                                     else tr) p))) }"

subsection \<open>The utilities of \<^verbatim>\<open>AdvanceTime\<close>\<close>

text \<open>The list of trajectories that \<^verbatim>\<open>EvolveHistories\<close> builds.\<close>

definition history_trajectories :: "Plugin \<Rightarrow> slot list" where
  "history_trajectories p =
     map (\<lambda>ic. CelestialHistory (fst ic)) (celestials p) @
     map (\<lambda>gv. VesselHistory (fst gv))
       (filter (\<lambda>gv. is_synchronized (snd gv) \<and> \<not> contains (bubble p) (fst gv)
                     \<and> \<not> is_dirty p (fst gv)) (vessels p))"

definition EvolveHistories :: "Physics \<Rightarrow> Instant \<Rightarrow> Plugin \<Rightarrow> Plugin option" where
  "EvolveHistories \<Phi> t p =
     do { p' \<leftarrow> Integrate \<Phi> t \<Delta>t False (history_trajectories p) p;
          ht \<leftarrow> HistoryTime p';
          if ht \<ge> current_time p' then Some p' else None }"

text \<open>
  \<^verbatim>\<open>SynchronizeBubbleHistories\<close>.  The loop over the vessels of the bubble touches, for
  each of them, that vessel and its membership of the two sets.
\<close>

definition SynchronizeBubbleHistories :: "Physics \<Rightarrow> Plugin \<Rightarrow> Plugin option" where
  "SynchronizeBubbleHistories \<Phi> p =
     do { s \<leftarrow> current_state (bubble p);
          centre_of_mass \<leftarrow> last_degrees_of_freedom (centre_of_mass_trajectory s);
          vs \<leftarrow> for_each_entry (contains (bubble p))
                  (\<lambda>g v.
                     do { from_com \<leftarrow> from_centre_of_mass (bubble p) g;
                          ht \<leftarrow> HistoryTime p;
                          v' \<leftarrow> (if is_synchronized v
                                 then do { hist \<leftarrow> v_history v;
                                           hist' \<leftarrow> Append ht (dof_plus (arithmetic \<Phi>) centre_of_mass from_com) hist;
                                           Some (v\<lparr>v_history := Some hist'\<rparr>) }
                                 else do { v' \<leftarrow> CreateHistoryAndForkProlongation ht
                                                   (dof_plus (arithmetic \<Phi>) centre_of_mass from_com) v;
                                           if g \<in> unsynchronized_vessels p then Some v' else None });
                          if g \<in> dirty_vessels p then Some v' else None })
                  (vessels p);
          Some (p\<lparr>vessels := vs,
                  unsynchronized_vessels :=
                    unsynchronized_vessels p -
                      fst ` set (filter (\<lambda>gv. contains (bubble p) (fst gv)
                                               \<and> \<not> is_synchronized (snd gv)) (vessels p)),
                  dirty_vessels :=
                    dirty_vessels p -
                      fst ` set (filter (\<lambda>gv. contains (bubble p) (fst gv)) (vessels p))\<rparr>) }"


text \<open>
  \<^verbatim>\<open>SynchronizeNewVesselsAndCleanDirtyVessels\<close>.  The two sets of pointers are walked in
  an order that the program does not fix; here their vessels come in the order of the
  map.  Each of the two later loops touches, at a vessel, that vessel only.
\<close>

definition synchronization_trajectories :: "Plugin \<Rightarrow> slot list" where
  "synchronization_trajectories p =
     map (\<lambda>ic. CelestialProlongation (fst ic)) (celestials p) @
     map (\<lambda>gv. VesselProlongation (fst gv))
       (filter (\<lambda>gv. fst gv \<in> unsynchronized_vessels p
                     \<and> \<not> contains (bubble p) (fst gv)) (vessels p)) @
     map (\<lambda>gv. VesselProlongation (fst gv))
       (filter (\<lambda>gv. fst gv \<in> dirty_vessels p
                     \<and> \<not> contains (bubble p) (fst gv)
                     \<and> is_synchronized (snd gv)) (vessels p)) @
     (if \<not> empty_bubble (bubble p) then [BubbleCentreOfMass] else [])"

definition SynchronizeNewVesselsAndCleanDirtyVessels :: "Physics \<Rightarrow> Plugin \<Rightarrow> Plugin option" where
  "SynchronizeNewVesselsAndCleanDirtyVessels \<Phi> p =
     do { ht \<leftarrow> HistoryTime p;
          p1 \<leftarrow> Integrate \<Phi> ht \<Delta>t True (synchronization_trajectories p) p;
          p2 \<leftarrow> (if \<not> empty_bubble (bubble p1) then SynchronizeBubbleHistories \<Phi> p1 else Some p1);
          vs3 \<leftarrow> for_each_entry (\<lambda>g. g \<in> unsynchronized_vessels p2)
                   (\<lambda>g v.
                      if contains (bubble p2) g then None
                      else do { ht \<leftarrow> HistoryTime p2;
                                pr \<leftarrow> v_prolongation v;
                                d \<leftarrow> last_degrees_of_freedom pr;
                                CreateHistoryAndForkProlongation ht d v })
                   (vessels p2);
          let p3 = p2\<lparr>vessels := vs3,
                     dirty_vessels := dirty_vessels p2 - unsynchronized_vessels p2,
                     unsynchronized_vessels := {}\<rparr>;
          vs4 \<leftarrow> for_each_entry (\<lambda>g. g \<in> dirty_vessels p3)
                   (\<lambda>g v.
                      if contains (bubble p3) g then None
                      else do { ht \<leftarrow> HistoryTime p3;
                                hist \<leftarrow> v_history v;
                                pr \<leftarrow> v_prolongation v;
                                d \<leftarrow> last_degrees_of_freedom pr;
                                hist' \<leftarrow> Append ht d hist;
                                Some (v\<lparr>v_history := Some hist'\<rparr>) })
                   (vessels p3);
          Some (p3\<lparr>vessels := vs4, dirty_vessels := {}\<rparr>) }"

definition ResetProlongations :: "Plugin \<Rightarrow> Plugin option" where
  "ResetProlongations p =
     do { vs \<leftarrow> for_each_entry (\<lambda>g. True)
                  (\<lambda>g v. do { ht \<leftarrow> HistoryTime p; ResetProlongation ht v }) (vessels p);
          cs \<leftarrow> for_each_entry (\<lambda>i. True)
                  (\<lambda>i c. do { ht \<leftarrow> HistoryTime p; c_ResetProlongation ht c }) (celestials p);
          Some (p\<lparr>vessels := vs, celestials := cs\<rparr>) }"

definition prolongation_trajectories :: "Plugin \<Rightarrow> slot list" where
  "prolongation_trajectories p =
     map (\<lambda>ic. CelestialProlongation (fst ic)) (celestials p) @
     map (\<lambda>gv. VesselProlongation (fst gv))
       (filter (\<lambda>gv. \<not> contains (bubble p) (fst gv)) (vessels p)) @
     (if \<not> empty_bubble (bubble p) then [BubbleCentreOfMass] else [])"

definition EvolveProlongationsAndBubble :: "Physics \<Rightarrow> Instant \<Rightarrow> Plugin \<Rightarrow> Plugin option" where
  "EvolveProlongationsAndBubble \<Phi> t p =
     do { p1 \<leftarrow> Integrate \<Phi> t \<Delta>t True (prolongation_trajectories p) p;
          if \<not> empty_bubble (bubble p1)
          then do { s \<leftarrow> current_state (bubble p1);
                    centre_of_mass \<leftarrow> last_degrees_of_freedom (centre_of_mass_trajectory s);
                    vs \<leftarrow> for_each_entry (contains (bubble p1))
                            (\<lambda>g v.
                               do { from_com \<leftarrow> from_centre_of_mass (bubble p1) g;
                                    pr \<leftarrow> v_prolongation v;
                                    pr' \<leftarrow> Append t (dof_plus (arithmetic \<Phi>) centre_of_mass from_com) pr;
                                    Some (v\<lparr>v_prolongation := Some pr'\<rparr>) })
                            (vessels p1);
                    Some (p1\<lparr>vessels := vs\<rparr>) }
          else Some p1 }"

subsection \<open>The public operations\<close>

text \<open>The constructor: an initializing plugin that holds the sun alone.\<close>

definition new_Plugin ::
  "Instant \<Rightarrow> Index \<Rightarrow> GravitationalParameter \<Rightarrow> Angle \<Rightarrow> Plugin option" where
  "new_Plugin initial_time sun_index sun_gravitational_parameter rotation =
     do { s \<leftarrow> c_CreateHistoryAndForkProlongation initial_time
                 (DegreesOfFreedom (R3 0 0 0) (R3 0 0 0))
                 (new_Celestial sun_gravitational_parameter);
          Some \<lparr>vessels = [], celestials = [(sun_index, s)],
                unsynchronized_vessels = {}, dirty_vessels = {}, kept_vessels = {},
                bubble = new_PhysicsBubble, initializing = True,
                planetarium_rotation = rotation, current_time = initial_time,
                sun = sun_index\<rparr> }"

definition InsertCelestial ::
  "Physics \<Rightarrow> Index \<Rightarrow> GravitationalParameter \<Rightarrow> Index \<Rightarrow> RelativeDegreesOfFreedom \<Rightarrow> Plugin \<Rightarrow>
   Plugin option" where
  "InsertCelestial \<Phi> celestial_index gravitational_parameter parent_index from_parent p =
     (if \<not> initializing p then None
      else
        do { parent \<leftarrow> map_of (celestials p) parent_index;
             (case emplace celestial_index (new_Celestial gravitational_parameter) (celestials p) of
                (cs, inserted) \<Rightarrow>
                  if \<not> inserted then None
                  else
                    do { let relative =
                           on_dof (rotate (arithmetic \<Phi>) (Inverse_rotation (PlanetariumRotation p)))
                             (on_dof (permutation_apply (Inverse_permutation kSunLookingGlass)) from_parent);
                         hist \<leftarrow> c_history parent;
                         d \<leftarrow> last_degrees_of_freedom hist;
                         c \<leftarrow> map_of cs celestial_index;
                         c' \<leftarrow> c_CreateHistoryAndForkProlongation (current_time p)
                                 (dof_plus (arithmetic \<Phi>) d relative) (c\<lparr>c_parent := Some parent_index\<rparr>);
                         Some (p\<lparr>celestials := modify celestial_index (\<lambda>_. c') cs\<rparr>) }) })"

definition EndInitialization :: "Plugin \<Rightarrow> Plugin" where
  "EndInitialization p = p\<lparr>initializing := False\<rparr>"

definition UpdateCelestialHierarchy :: "Index \<Rightarrow> Index \<Rightarrow> Plugin \<Rightarrow> Plugin option" where
  "UpdateCelestialHierarchy celestial_index parent_index p =
     (if initializing p then None
      else
        do { c \<leftarrow> map_of (celestials p) celestial_index;
             parent \<leftarrow> map_of (celestials p) parent_index;
             Some (p\<lparr>celestials :=
                      modify celestial_index (\<lambda>c. c\<lparr>c_parent := Some parent_index\<rparr>)
                        (celestials p)\<rparr>) })"

text \<open>\<^verbatim>\<open>InsertOrKeepVessel\<close> returns whether it inserted, with the new state.\<close>

definition InsertOrKeepVessel :: "GUID \<Rightarrow> Index \<Rightarrow> Plugin \<Rightarrow> (bool \<times> Plugin) option" where
  "InsertOrKeepVessel vessel_guid parent_index p =
     (if initializing p then None
      else
        do { parent \<leftarrow> map_of (celestials p) parent_index;
             (case emplace vessel_guid (new_Vessel parent_index) (vessels p) of
                (vs, inserted) \<Rightarrow>
                  Some (inserted,
                        p\<lparr>kept_vessels := insert vessel_guid (kept_vessels p),
                          vessels := modify vessel_guid (\<lambda>v. v\<lparr>v_parent := parent_index\<rparr>) vs\<rparr>)) })"

definition SetVesselStateOffset ::
  "Physics \<Rightarrow> GUID \<Rightarrow> RelativeDegreesOfFreedom \<Rightarrow> Plugin \<Rightarrow> Plugin option" where
  "SetVesselStateOffset \<Phi> vessel_guid from_parent p =
     (if initializing p then None
      else
        do { vessel \<leftarrow> find_vessel_by_guid_or_die p vessel_guid;
             (if is_initialized vessel then None
              else
                do { let relative =
                       on_dof (rotate (arithmetic \<Phi>) (Inverse_rotation (PlanetariumRotation p)))
                         (on_dof (permutation_apply (Inverse_permutation kSunLookingGlass)) from_parent);
                     parent \<leftarrow> map_of (celestials p) (v_parent vessel);
                     pr \<leftarrow> c_prolongation parent;
                     d \<leftarrow> last_degrees_of_freedom pr;
                     vessel' \<leftarrow> CreateProlongation (current_time p) (dof_plus (arithmetic \<Phi>) d relative) vessel;
                     if vessel_guid \<in> unsynchronized_vessels p then None
                     else Some (p\<lparr>vessels := modify vessel_guid (\<lambda>_. vessel') (vessels p),
                                  unsynchronized_vessels :=
                                    insert vessel_guid (unsynchronized_vessels p)\<rparr>) }) })"

text \<open>
  \<^verbatim>\<open>AdvanceTime\<close>.  \<open>history_step\<close> is the body of its conditional: the histories are
  evolved, the new and the dirty vessels are synchronized when there is one or the
  bubble is not empty, and the prolongations are reset.
\<close>

definition history_step :: "Physics \<Rightarrow> Instant \<Rightarrow> Plugin \<Rightarrow> Plugin option" where
  "history_step \<Phi> t p =
     do { p3 \<leftarrow> EvolveHistories \<Phi> t p;
          p4 \<leftarrow> (if has_unsynchronized_vessels p3 \<or> has_dirty_vessels p3
                     \<or> \<not> empty_bubble (bubble p3)
                  then SynchronizeNewVesselsAndCleanDirtyVessels \<Phi> p3
                  else Some p3);
          ResetProlongations p4 }"

definition AdvanceTime :: "Physics \<Rightarrow> Instant \<Rightarrow> Angle \<Rightarrow> Plugin \<Rightarrow> Plugin option" where
  "AdvanceTime \<Phi> t rotation p =
     (if initializing p then None
      else if \<not> t > current_time p then None
      else
        do { p1 \<leftarrow> CleanUpVessels p;
             b \<leftarrow> Prepare \<Phi> (PlanetariumRotation p1) (current_time p1) t (vessels p1) (bubble p1);
             ht \<leftarrow> HistoryTime (p1\<lparr>bubble := b\<rparr>);
             p5 \<leftarrow> (if round_double (arithmetic \<Phi>) (ht + \<Delta>t) < t
                    then history_step \<Phi> t (p1\<lparr>bubble := b\<rparr>)
                    else Some (p1\<lparr>bubble := b\<rparr>));
             p6 \<leftarrow> EvolveProlongationsAndBubble \<Phi> t p5;
             Some (p6\<lparr>current_time := t, planetarium_rotation := rotation\<rparr>) })"

text \<open>
  The state in which \<^verbatim>\<open>AdvanceTime\<close> calls \<^verbatim>\<open>EvolveProlongationsAndBubble\<close>: what the
  cleanup, \<^verbatim>\<open>Prepare\<close> and the history step, when there is one, have made of the plugin.
\<close>

definition before_prolongations :: "Physics \<Rightarrow> Instant \<Rightarrow> Plugin \<Rightarrow> Plugin option" where
  "before_prolongations \<Phi> t p =
     do { p1 \<leftarrow> CleanUpVessels p;
          b \<leftarrow> Prepare \<Phi> (PlanetariumRotation p1) (current_time p1) t (vessels p1) (bubble p1);
          ht \<leftarrow> HistoryTime (p1\<lparr>bubble := b\<rparr>);
          if round_double (arithmetic \<Phi>) (ht + \<Delta>t) < t
          then history_step \<Phi> t (p1\<lparr>bubble := b\<rparr>)
          else Some (p1\<lparr>bubble := b\<rparr>) }"


definition VesselFromParent ::
  "Physics \<Rightarrow> GUID \<Rightarrow> Plugin \<Rightarrow> RelativeDegreesOfFreedom option" where
  "VesselFromParent \<Phi> vessel_guid p =
     (if initializing p then None
      else
        do { vessel \<leftarrow> find_vessel_by_guid_or_die p vessel_guid;
             pr \<leftarrow> v_prolongation vessel;
             d \<leftarrow> last_degrees_of_freedom pr;
             parent \<leftarrow> map_of (celestials p) (v_parent vessel);
             ppr \<leftarrow> c_prolongation parent;
             pd \<leftarrow> last_degrees_of_freedom ppr;
             let barycentric_result = dof_minus (arithmetic \<Phi>) d pd;
             Some (on_dof (permutation_apply kSunLookingGlass)
                     (on_dof (rotate (arithmetic \<Phi>) (PlanetariumRotation p)) barycentric_result)) })"




definition AddVesselToNextPhysicsBubble ::
  "GUID \<Rightarrow> IdAndOwnedPart list \<Rightarrow> Plugin \<Rightarrow> Plugin option" where
  "AddVesselToNextPhysicsBubble vessel_guid parts p =
     do { vessel \<leftarrow> find_vessel_by_guid_or_die p vessel_guid;
          b \<leftarrow> AddVesselToNext vessel_guid parts (bubble p);
          Some (p\<lparr>dirty_vessels := insert vessel_guid (dirty_vessels p), bubble := b\<rparr>) }"


subsection \<open>Rendering\<close>

text \<open>
  A \<^verbatim>\<open>LineSegment\<close> (\<^verbatim>\<open>ksp_plugin/plugin.hpp\<close>) and the two transforms of a
  \<^verbatim>\<open>Transforms\<close> object (\<^verbatim>\<open>physics/transforms.hpp\<close>).  A transform gives the degrees of
  freedom of a sample in the target frame from its time and its degrees of freedom; a
  transforming iterator visits the samples of a trajectory in order and keeps their
  times.  The cache of the first transform does not change what it returns.
\<close>

record LineSegment =
  segment_begin :: R3
  segment_end :: R3


definition transforming_iterator ::
  "(Instant \<Rightarrow> DegreesOfFreedom \<Rightarrow> DegreesOfFreedom) \<Rightarrow> Trajectory \<Rightarrow> sample list" where
  "transforming_iterator f tr = map (\<lambda>s. (fst s, f (fst s) (snd s))) tr"


text \<open>The last loop of \<^verbatim>\<open>RenderedVesselTrajectory\<close>, over the pairs of successive samples.\<close>

fun render_segments :: "(R3 \<Rightarrow> R3) \<Rightarrow> sample list \<Rightarrow> LineSegment list" where
  "render_segments to_world [] = []"
| "render_segments to_world [s] = []"
| "render_segments to_world (s # s' # ss) =
     \<lparr>segment_begin = to_world (position (snd s)),
      segment_end = to_world (position (snd s'))\<rparr>
       # render_segments to_world (s' # ss)"





subsection \<open>Serialization\<close>

text \<open>
  Modelled from the spec: the messages of \<^verbatim>\<open>serialization/ksp_plugin.pb.h\<close> and the
  \<^verbatim>\<open>WriteToMessage\<close> and \<^verbatim>\<open>ReadFromMessage\<close> of celestials, vessels and the bubble are
  not under src/.  The message of a celestial or of a vessel captures its body and its
  trajectories, and writing one that is not initialized is a fatal error; the parent is
  written by the plugin.  The message of the bubble captures the bubble, with each of
  its vessels named by the GUID that the plugin's look-up gives, a fatal error for a
  vessel that the look-up does not find.
\<close>

record CelestialMessage =
  cm_index :: Index
  cm_celestial :: "GravitationalParameter \<times> Trajectory \<times> Trajectory"
  cm_parent_index :: "Index option"

record VesselMessage =
  vm_guid :: GUID
  vm_vessel :: "Trajectory option \<times> Trajectory"
  vm_parent_index :: Index
  vm_dirty :: bool

record PluginMessage =
  m_celestial :: "CelestialMessage list"
  m_vessel :: "VesselMessage list"
  m_bubble :: PhysicsBubble
  m_planetarium_rotation :: Angle
  m_current_time :: Instant
  m_sun_index :: Index

definition c_WriteToMessage :: "Celestial \<Rightarrow> (GravitationalParameter \<times> Trajectory \<times> Trajectory) option" where
  "c_WriteToMessage c =
     do { h \<leftarrow> c_history c; pr \<leftarrow> c_prolongation c; Some (c_body c, h, pr) }"

definition c_ReadFromMessage :: "GravitationalParameter \<times> Trajectory \<times> Trajectory \<Rightarrow> Celestial" where
  "c_ReadFromMessage m =
     \<lparr>c_body = fst m, c_parent = None, c_history = Some (fst (snd m)),
      c_prolongation = Some (snd (snd m))\<rparr>"

definition v_WriteToMessage :: "Vessel \<Rightarrow> (Trajectory option \<times> Trajectory) option" where
  "v_WriteToMessage v = do { pr \<leftarrow> v_prolongation v; Some (v_history v, pr) }"

definition v_ReadFromMessage :: "Trajectory option \<times> Trajectory \<Rightarrow> Index \<Rightarrow> Vessel" where
  "v_ReadFromMessage m parent =
     \<lparr>v_parent = parent, v_history = fst m, v_prolongation = Some (snd m)\<rparr>"

definition all_bubble_vessels :: "PhysicsBubble \<Rightarrow> GUID list" where
  "all_bubble_vessels b = bubble_vessels b @ map fst (next_state b)"

definition b_WriteToMessage :: "(GUID \<Rightarrow> bool) \<Rightarrow> PhysicsBubble \<Rightarrow> PhysicsBubble option" where
  "b_WriteToMessage known b = (if list_all known (all_bubble_vessels b) then Some b else None)"

definition b_ReadFromMessage :: "(GUID \<Rightarrow> bool) \<Rightarrow> PhysicsBubble \<Rightarrow> PhysicsBubble option" where
  "b_ReadFromMessage known m = (if list_all known (all_bubble_vessels m) then Some m else None)"

text \<open>
  \<^verbatim>\<open>Plugin::WriteToMessage\<close>.  The maps from pointers back to indices and GUIDs find a
  pointer exactly when the plugin owns its target.
\<close>

definition WriteToMessage :: "Plugin \<Rightarrow> PluginMessage option" where
  "WriteToMessage p =
     (if initializing p then None
      else
        do { cms \<leftarrow> those (map (\<lambda>ic.
                      do { cm \<leftarrow> c_WriteToMessage (snd ic);
                           parent_index \<leftarrow>
                             (case c_parent (snd ic) of
                                None \<Rightarrow> Some None
                              | Some i \<Rightarrow> if map_of (celestials p) i = None then None
                                          else Some (Some i));
                           Some \<lparr>cm_index = fst ic, cm_celestial = cm,
                                 cm_parent_index = parent_index\<rparr> }) (celestials p));
             vms \<leftarrow> those (map (\<lambda>gv.
                      do { vm \<leftarrow> v_WriteToMessage (snd gv);
                           if map_of (celestials p) (v_parent (snd gv)) = None then None
                           else Some \<lparr>vm_guid = fst gv, vm_vessel = vm,
                                      vm_parent_index = v_parent (snd gv),
                                      vm_dirty = is_dirty p (fst gv)\<rparr> }) (vessels p));
             bm \<leftarrow> b_WriteToMessage (\<lambda>g. map_of (vessels p) g \<noteq> None) (bubble p);
             if map_of (celestials p) (sun p) = None then None
             else Some \<lparr>m_celestial = cms, m_vessel = vms, m_bubble = bm,
                        m_planetarium_rotation = planetarium_rotation p,
                        m_current_time = current_time p, m_sun_index = sun p\<rparr> })"

text \<open>
  The private constructor used by deserialization: the vessels without a history are the
  unsynchronized ones, nothing is kept, and initialization is over.  It looks the sun up
  without a check; a sun index that is not there is taken as fatal.
\<close>

definition Plugin_of_parts ::
  "(GUID \<times> Vessel) list \<Rightarrow> (Index \<times> Celestial) list \<Rightarrow> GUID set \<Rightarrow> PhysicsBubble \<Rightarrow>
   Angle \<Rightarrow> Instant \<Rightarrow> Index \<Rightarrow> Plugin option" where
  "Plugin_of_parts vs cs dirty b rotation time sun_index =
     (if map_of cs sun_index = None then None
      else Some (EndInitialization
             \<lparr>vessels = vs, celestials = cs,
              unsynchronized_vessels = fst ` set (filter (\<lambda>gv. \<not> is_synchronized (snd gv)) vs),
              dirty_vessels = dirty, kept_vessels = {}, bubble = b, initializing = True,
              planetarium_rotation = rotation, current_time = time, sun = sun_index\<rparr>))"

definition ReadFromMessage :: "PluginMessage \<Rightarrow> Plugin option" where
  "ReadFromMessage m =
     do { let cs0 = fold (\<lambda>cm cs. fst (emplace (cm_index cm) (c_ReadFromMessage (cm_celestial cm)) cs))
                      (m_celestial m) [];
          cs \<leftarrow> for_each (\<lambda>cm cs.
                   case cm_parent_index cm of
                     None \<Rightarrow> Some cs
                   | Some i \<Rightarrow>
                       if map_of cs (cm_index cm) = None \<or> map_of cs i = None then None
                       else Some (modify (cm_index cm) (\<lambda>c. c\<lparr>c_parent := Some i\<rparr>) cs))
                 (m_celestial m) cs0;
          vd \<leftarrow> for_each (\<lambda>vm vd.
                   if map_of cs (vm_parent_index vm) = None then None
                   else case emplace (vm_guid vm)
                               (v_ReadFromMessage (vm_vessel vm) (vm_parent_index vm)) (fst vd) of
                          (vs, inserted) \<Rightarrow>
                            if inserted
                            then Some (vs, if vm_dirty vm then insert (vm_guid vm) (snd vd)
                                           else snd vd)
                            else None)
                 (m_vessel m) ([], {});
          b \<leftarrow> b_ReadFromMessage (\<lambda>g. map_of (fst vd) g \<noteq> None) (m_bubble m);
          Plugin_of_parts (fst vd) cs (snd vd) b (m_planetarium_rotation m) (m_current_time m)
            (m_sun_index m) }"

subsection \<open>Sequences of public calls\<close>

text \<open>
  The state-changing operations that a host can call on a plugin; \<open>run\<close> constructs a
  plugin and makes the calls in order, \<^const>\<open>None\<close> when a call is fatal.  Saving and
  restoring is the call that writes the plugin to a message and reads it back.
\<close>

datatype call =
  CallInsertCelestial Index GravitationalParameter Index RelativeDegreesOfFreedom
| CallEndInitialization
| CallUpdateCelestialHierarchy Index Index
| CallInsertOrKeepVessel GUID Index
| CallSetVesselStateOffset GUID RelativeDegreesOfFreedom
| CallAddVesselToNextPhysicsBubble GUID "IdAndOwnedPart list"
| CallAdvanceTime Instant Angle
| CallWriteAndRead

fun step :: "Physics \<Rightarrow> call \<Rightarrow> Plugin \<Rightarrow> Plugin option" where
  "step \<Phi> (CallInsertCelestial i \<mu> parent d) p = InsertCelestial \<Phi> i \<mu> parent d p"
| "step \<Phi> CallEndInitialization p = Some (EndInitialization p)"
| "step \<Phi> (CallUpdateCelestialHierarchy i parent) p = UpdateCelestialHierarchy i parent p"
| "step \<Phi> (CallInsertOrKeepVessel g parent) p = map_option snd (InsertOrKeepVessel g parent p)"
| "step \<Phi> (CallSetVesselStateOffset g d) p = SetVesselStateOffset \<Phi> g d p"
| "step \<Phi> (CallAddVesselToNextPhysicsBubble g parts) p = AddVesselToNextPhysicsBubble g parts p"
| "step \<Phi> (CallAdvanceTime t rotation) p = AdvanceTime \<Phi> t rotation p"
| "step \<Phi> CallWriteAndRead p = Option.bind (WriteToMessage p) ReadFromMessage"

definition run ::
  "Physics \<Rightarrow> Instant \<Rightarrow> Index \<Rightarrow> GravitationalParameter \<Rightarrow> Angle \<Rightarrow> call list \<Rightarrow> Plugin option" where
  "run \<Phi> initial_time sun_index \<mu> rotation calls =
     Option.bind (new_Plugin initial_time sun_index \<mu> rotation) (for_each (step \<Phi>) calls)"

subsection \<open>What a successful integration has done\<close>

text \<open>
  The relation between the plugin before and after a run of the integrator from \<open>t0\<close>
  to \<open>t_end\<close> over a list of trajectories: all of them ended at \<open>t0\<close>, and each has
  gained one sample at \<open>t_end\<close> unless the run made no step.
\<close>

definition integrated ::
  "bool \<Rightarrow> Instant \<Rightarrow> slot list \<Rightarrow> Plugin \<Rightarrow> Plugin \<Rightarrow> Instant \<Rightarrow> Instant \<Rightarrow> bool" where
  "integrated exact tmax slots p p' t0 t_end \<longleftrightarrow>
     slots \<noteq> [] \<and> t0 \<le> t_end \<and> t_end \<le> tmax \<and>
     (if exact then t_end = tmax
      else tmax < t_end + \<Delta>t \<and> (t0 + \<Delta>t \<le> tmax \<longrightarrow> t0 + \<Delta>t \<le> t_end)) \<and>
     (\<forall>s \<in> set slots. \<exists>tr. get_trajectory p s = Some tr \<and> last_time tr = Some t0) \<and>
     (\<exists>D. p' = map_trajectories
            (\<lambda>s tr. if s \<in> set slots \<and> t_end \<noteq> t0 then tr @ [(t_end, D s)] else tr) p)"

text \<open>
  What \<^verbatim>\<open>Integrate\<close> hands to the integrator: the body and the last degrees of freedom
  of each trajectory, in the order of the list.
\<close>

definition integrator_input ::
  "Plugin \<Rightarrow> slot list \<Rightarrow> (GravitationalParameter option \<times> DegreesOfFreedom) list option" where
  "integrator_input p trajectories =
     do { trs \<leftarrow> those (map (get_trajectory p) trajectories);
          lasts \<leftarrow> those (map last_sample trs);
          Some (zip (map (slot_body p) trajectories) (map snd lasts)) }"

text \<open>A trajectory that is another one, or that one with one more sample, at \<open>t\<close>.\<close>

definition extended :: "Instant \<Rightarrow> Trajectory \<Rightarrow> Trajectory \<Rightarrow> bool" where
  "extended t tr tr' \<longleftrightarrow> tr' = tr \<or> (\<exists>d. tr' = tr @ [(t, d)])"

subsection \<open>Example states\<close>

text \<open>
  Between \<open>2 ^ 53\<close> and \<open>2 ^ 53 + 2\<close> the doubles are two apart: \<open>example_round\<close> rounds
  a real of that interval to the nearer of its two ends, and \<open>2 ^ 53 + 1\<close>, halfway, to
  \<open>2 ^ 53\<close>, whose mantissa is even.  It leaves the other reals as they are; of these
  the examples meet only integers below \<open>2 ^ 53\<close>, which are doubles.  In the physics of
  the examples every body moves in a straight line at constant velocity, the centre of
  mass of the bubble is its first vessel, and the rotations are the exact ones, which
  at the angle zero compute nothing.  The plugin \<open>example_started\<close> holds the sun alone
  at time 0, after its initialization has ended.
\<close>

definition example_round :: "real \<Rightarrow> real" where
  "example_round x =
     (if 9007199254740992 < x \<and> x \<le> 9007199254740993 then 9007199254740992
      else if 9007199254740993 < x \<and> x < 9007199254740994 then 9007199254740994
      else x)"

fun free_motion :: "Time \<Rightarrow> DegreesOfFreedom \<Rightarrow> DegreesOfFreedom" where
  "free_motion \<tau> (DegreesOfFreedom (R3 x y z) (R3 u v w)) =
     DegreesOfFreedom (R3 (x + u * \<tau>) (y + v * \<tau>) (z + w * \<tau>)) (R3 u v w)"

definition example_physics :: Physics where
  "example_physics =
     \<lparr>arithmetic = \<lparr>round_double = example_round, rotate = exact_rotation\<rparr>,
      evolve = (\<lambda>h t0 t1 state k. free_motion (t1 - t0) (snd (state ! k))),
      bubble_centre_of_mass =
        (\<lambda>rot t0 t1 cur nxt.
           case nxt of [] \<Rightarrow> DegreesOfFreedom (R3 0 0 0) (R3 0 0 0)
                     | gpd # _ \<Rightarrow> snd (snd gpd)),
      bubble_offset = (\<lambda>rot cur nxt g. RelativeDegreesOfFreedom (R3 0 0 0) (R3 0 0 0))\<rparr>"

definition example_sun :: Celestial where
  "example_sun =
     \<lparr>c_body = 1, c_parent = None,
      c_history = Some [(0, DegreesOfFreedom (R3 0 0 0) (R3 0 0 0))],
      c_prolongation = Some [(0, DegreesOfFreedom (R3 0 0 0) (R3 0 0 0))]\<rparr>"

definition example_started :: Plugin where
  "example_started =
     \<lparr>vessels = [], celestials = [(0, example_sun)],
      unsynchronized_vessels = {}, dirty_vessels = {}, kept_vessels = {},
      bubble = new_PhysicsBubble, initializing = False,
      planetarium_rotation = 0, current_time = 0, sun = 0\<rparr>"

definition example_flight :: Plugin where
  "example_flight =
     \<lparr>vessels = [(''v'', \<lparr>v_parent = 0, v_history = None,
          v_prolongation = Some [(0, DegreesOfFreedom (R3 1 0 0) (R3 0 0 1))]\<rparr>)],
      celestials = [(0, example_sun)],
      unsynchronized_vessels = {''v''}, dirty_vessels = {}, kept_vessels = {''v''},
      bubble = new_PhysicsBubble, initializing = False,
      planetarium_rotation = 0, current_time = 0, sun = 0\<rparr>"

definition example_flight_5 :: Plugin where
  "example_flight_5 =
     \<lparr>vessels = [(''v'', \<lparr>v_parent = 0, v_history = None,
          v_prolongation = Some [(0, DegreesOfFreedom (R3 1 0 0) (R3 0 0 1)),
                                 (5, DegreesOfFreedom (R3 1 0 5) (R3 0 0 1))]\<rparr>)],
      celestials = [(0, \<lparr>c_body = 1, c_parent = None,
          c_history = Some [(0, DegreesOfFreedom (R3 0 0 0) (R3 0 0 0))],
          c_prolongation = Some [(0, DegreesOfFreedom (R3 0 0 0) (R3 0 0 0)),
                                 (5, DegreesOfFreedom (R3 0 0 0) (R3 0 0 0))]\<rparr>)],
      unsynchronized_vessels = {''v''}, dirty_vessels = {}, kept_vessels = {},
      bubble = new_PhysicsBubble, initializing = False,
      planetarium_rotation = 0, current_time = 5, sun = 0\<rparr>"

definition example_flight_25 :: Plugin where
  "example_flight_25 =
     \<lparr>vessels = [(''v'', \<lparr>v_parent = 0,
          v_history = Some [(20, DegreesOfFreedom (R3 1 0 20) (R3 0 0 1))],
          v_prolongation = Some [(20, DegreesOfFreedom (R3 1 0 20) (R3 0 0 1)),
                                 (25, DegreesOfFreedom (R3 1 0 25) (R3 0 0 1))]\<rparr>)],
      celestials = [(0, \<lparr>c_body = 1, c_parent = None,
          c_history = Some [(0, DegreesOfFreedom (R3 0 0 0) (R3 0 0 0)),
                            (20, DegreesOfFreedom (R3 0 0 0) (R3 0 0 0))],
          c_prolongation = Some [(0, DegreesOfFreedom (R3 0 0 0) (R3 0 0 0)),
                                 (20, DegreesOfFreedom (R3 0 0 0) (R3 0 0 0)),
                                 (25, DegreesOfFreedom (R3 0 0 0) (R3 0 0 0))]\<rparr>)],
      unsynchronized_vessels = {}, dirty_vessels = {}, kept_vessels = {},
      bubble = new_PhysicsBubble, initializing = False,
      planetarium_rotation = 0, current_time = 25, sun = 0\<rparr>"

text \<open>
  The same flight with the vessel in the next physics bubble, by
  \<^verbatim>\<open>AddVesselToNextPhysicsBubble\<close>; the state in which \<^verbatim>\<open>AdvanceTime\<close> to \<open>25\<close> then calls
  \<^verbatim>\<open>EvolveProlongationsAndBubble\<close>, after a history step to \<open>20\<close>; and the state that it
  returns.
\<close>

definition example_bubble :: Plugin where
  "example_bubble =
     \<lparr>vessels = [(''v'', \<lparr>v_parent = 0, v_history = None,
          v_prolongation = Some [(0, DegreesOfFreedom (R3 1 0 0) (R3 0 0 1))]\<rparr>)],
      celestials = [(0, example_sun)],
      unsynchronized_vessels = {''v''}, dirty_vessels = {''v''}, kept_vessels = {''v''},
      bubble = \<lparr>current_state = None,
                next_state = [(''v'', [(1, (1, DegreesOfFreedom (R3 0 0 0) (R3 0 0 0)))])]\<rparr>,
      initializing = False,
      planetarium_rotation = 0, current_time = 0, sun = 0\<rparr>"

definition example_bubble_20 :: Plugin where
  "example_bubble_20 =
     \<lparr>vessels = [(''v'', \<lparr>v_parent = 0,
          v_history = Some [(20, DegreesOfFreedom (R3 1 0 20) (R3 0 0 1))],
          v_prolongation = Some [(20, DegreesOfFreedom (R3 1 0 20) (R3 0 0 1))]\<rparr>)],
      celestials = [(0, \<lparr>c_body = 1, c_parent = None,
          c_history = Some [(0, DegreesOfFreedom (R3 0 0 0) (R3 0 0 0)),
                            (20, DegreesOfFreedom (R3 0 0 0) (R3 0 0 0))],
          c_prolongation = Some [(0, DegreesOfFreedom (R3 0 0 0) (R3 0 0 0)),
                                 (20, DegreesOfFreedom (R3 0 0 0) (R3 0 0 0))]\<rparr>)],
      unsynchronized_vessels = {}, dirty_vessels = {}, kept_vessels = {},
      bubble = \<lparr>current_state = Some
                  \<lparr>from_centre_of_mass_of =
                     [(''v'', RelativeDegreesOfFreedom (R3 0 0 0) (R3 0 0 0))],
                   centre_of_mass_trajectory =
                     [(0, DegreesOfFreedom (R3 1 0 0) (R3 0 0 1)),
                      (20, DegreesOfFreedom (R3 1 0 20) (R3 0 0 1))]\<rparr>,
                next_state = []\<rparr>,
      initializing = False,
      planetarium_rotation = 0, current_time = 0, sun = 0\<rparr>"

definition example_bubble_25 :: Plugin where
  "example_bubble_25 =
     \<lparr>vessels = [(''v'', \<lparr>v_parent = 0,
          v_history = Some [(20, DegreesOfFreedom (R3 1 0 20) (R3 0 0 1))],
          v_prolongation = Some [(20, DegreesOfFreedom (R3 1 0 20) (R3 0 0 1)),
                                 (25, DegreesOfFreedom (R3 1 0 25) (R3 0 0 1))]\<rparr>)],
      celestials = [(0, \<lparr>c_body = 1, c_parent = None,
          c_history = Some [(0, DegreesOfFreedom (R3 0 0 0) (R3 0 0 0)),
                            (20, DegreesOfFreedom (R3 0 0 0) (R3 0 0 0))],
          c_prolongation = Some [(0, DegreesOfFreedom (R3 0 0 0) (R3 0 0 0)),
                                 (20, DegreesOfFreedom (R3 0 0 0) (R3 0 0 0)),
                                 (25, DegreesOfFreedom (R3 0 0 0) (R3 0 0 0))]\<rparr>)],
      unsynchronized_vessels = {}, dirty_vessels = {}, kept_vessels = {},
      bubble = \<lparr>current_state = Some
                  \<lparr>from_centre_of_mass_of =
                     [(''v'', RelativeDegreesOfFreedom (R3 0 0 0) (R3 0 0 0))],
                   centre_of_mass_trajectory =
                     [(0, DegreesOfFreedom (R3 1 0 0) (R3 0 0 1)),
                      (20, DegreesOfFreedom (R3 1 0 20) (R3 0 0 1)),
                      (25, DegreesOfFreedom (R3 1 0 25) (R3 0 0 1))]\<rparr>,
                next_state = []\<rparr>,
      initializing = False,
      planetarium_rotation = 0, current_time = 25, sun = 0\<rparr>"

text \<open>
  The flight after an \<^verbatim>\<open>AdvanceTime\<close> to 10; the plugin after \<^verbatim>\<open>InsertOrKeepVessel\<close>
  alone, with a vessel that has no state yet; a later state of the flight in the
  bubble, in which the vessel is synchronized, dirty and no longer in the next bubble,
  and that state after an \<^verbatim>\<open>AdvanceTime\<close> to 45; and a plugin with two vessels of which one
  is kept, before and after an \<^verbatim>\<open>AdvanceTime\<close> to 7.
\<close>

definition example_flight_10 :: Plugin where
  "example_flight_10 =
     \<lparr>vessels = [(''v'', \<lparr>v_parent = 0, v_history = None,
          v_prolongation = Some [(0, DegreesOfFreedom (R3 1 0 0) (R3 0 0 1)),
                                 (10, DegreesOfFreedom (R3 1 0 10) (R3 0 0 1))]\<rparr>)],
      celestials = [(0, \<lparr>c_body = 1, c_parent = None,
          c_history = Some [(0, DegreesOfFreedom (R3 0 0 0) (R3 0 0 0))],
          c_prolongation = Some [(0, DegreesOfFreedom (R3 0 0 0) (R3 0 0 0)),
                                 (10, DegreesOfFreedom (R3 0 0 0) (R3 0 0 0))]\<rparr>)],
      unsynchronized_vessels = {''v''}, dirty_vessels = {}, kept_vessels = {},
      bubble = new_PhysicsBubble, initializing = False,
      planetarium_rotation = 0, current_time = 10, sun = 0\<rparr>"


definition example_dirty :: Plugin where
  "example_dirty =
     \<lparr>vessels = [(''v'', \<lparr>v_parent = 0,
          v_history = Some [(20, DegreesOfFreedom (R3 1 0 20) (R3 0 0 1))],
          v_prolongation = Some [(20, DegreesOfFreedom (R3 1 0 20) (R3 0 0 1)),
                                 (25, DegreesOfFreedom (R3 1 0 25) (R3 0 0 1)),
                                 (27, DegreesOfFreedom (R3 1 0 27) (R3 0 0 1))]\<rparr>)],
      celestials = [(0, \<lparr>c_body = 1, c_parent = None,
          c_history = Some [(0, DegreesOfFreedom (R3 0 0 0) (R3 0 0 0)),
                            (20, DegreesOfFreedom (R3 0 0 0) (R3 0 0 0))],
          c_prolongation = Some [(0, DegreesOfFreedom (R3 0 0 0) (R3 0 0 0)),
                                 (20, DegreesOfFreedom (R3 0 0 0) (R3 0 0 0)),
                                 (25, DegreesOfFreedom (R3 0 0 0) (R3 0 0 0)),
                                 (27, DegreesOfFreedom (R3 0 0 0) (R3 0 0 0))]\<rparr>)],
      unsynchronized_vessels = {}, dirty_vessels = {''v''}, kept_vessels = {''v''},
      bubble = \<lparr>current_state = Some
                  \<lparr>from_centre_of_mass_of =
                     [(''v'', RelativeDegreesOfFreedom (R3 0 0 0) (R3 0 0 0))],
                   centre_of_mass_trajectory =
                     [(25, DegreesOfFreedom (R3 1 0 25) (R3 0 0 1)),
                      (27, DegreesOfFreedom (R3 1 0 27) (R3 0 0 1))]\<rparr>,
                next_state = []\<rparr>,
      initializing = False,
      planetarium_rotation = 0, current_time = 27, sun = 0\<rparr>"


definition example_fleet :: Plugin where
  "example_fleet =
     \<lparr>vessels = [(''v'', \<lparr>v_parent = 0, v_history = None,
          v_prolongation = Some [(0, DegreesOfFreedom (R3 1 0 0) (R3 0 0 1)),
                                 (5, DegreesOfFreedom (R3 1 0 5) (R3 0 0 1))]\<rparr>),
                (''w'', \<lparr>v_parent = 0, v_history = None,
          v_prolongation = Some [(5, DegreesOfFreedom (R3 2 0 0) (R3 0 0 1))]\<rparr>)],
      celestials = [(0, \<lparr>c_body = 1, c_parent = None,
          c_history = Some [(0, DegreesOfFreedom (R3 0 0 0) (R3 0 0 0))],
          c_prolongation = Some [(0, DegreesOfFreedom (R3 0 0 0) (R3 0 0 0)),
                                 (5, DegreesOfFreedom (R3 0 0 0) (R3 0 0 0))]\<rparr>)],
      unsynchronized_vessels = {''v'', ''w''}, dirty_vessels = {}, kept_vessels = {''w''},
      bubble = new_PhysicsBubble, initializing = False,
      planetarium_rotation = 0, current_time = 5, sun = 0\<rparr>"

definition example_fleet_7 :: Plugin where
  "example_fleet_7 =
     \<lparr>vessels = [(''w'', \<lparr>v_parent = 0, v_history = None,
          v_prolongation = Some [(5, DegreesOfFreedom (R3 2 0 0) (R3 0 0 1)),
                                 (7, DegreesOfFreedom (R3 2 0 2) (R3 0 0 1))]\<rparr>)],
      celestials = [(0, \<lparr>c_body = 1, c_parent = None,
          c_history = Some [(0, DegreesOfFreedom (R3 0 0 0) (R3 0 0 0))],
          c_prolongation = Some [(0, DegreesOfFreedom (R3 0 0 0) (R3 0 0 0)),
                                 (5, DegreesOfFreedom (R3 0 0 0) (R3 0 0 0)),
                                 (7, DegreesOfFreedom (R3 0 0 0) (R3 0 0 0))]\<rparr>)],
      unsynchronized_vessels = {''w''}, dirty_vessels = {}, kept_vessels = {},
      bubble = new_PhysicsBubble, initializing = False,
      planetarium_rotation = 0, current_time = 7, sun = 0\<rparr>"





text \<open>
  The flight written to a message and read back, in which no vessel is kept, and that
  plugin after an \<^verbatim>\<open>AdvanceTime\<close> to 5.
\<close>

definition example_restored :: Plugin where
  "example_restored =
     \<lparr>vessels = [(''v'', \<lparr>v_parent = 0, v_history = None,
          v_prolongation = Some [(0, DegreesOfFreedom (R3 1 0 0) (R3 0 0 1))]\<rparr>)],
      celestials = [(0, example_sun)],
      unsynchronized_vessels = {''v''}, dirty_vessels = {}, kept_vessels = {},
      bubble = new_PhysicsBubble, initializing = False,
      planetarium_rotation = 0, current_time = 0, sun = 0\<rparr>"

definition example_restored_5 :: Plugin where
  "example_restored_5 =
     \<lparr>vessels = [],
      celestials = [(0, \<lparr>c_body = 1, c_parent = None,
          c_history = Some [(0, DegreesOfFreedom (R3 0 0 0) (R3 0 0 0))],
          c_prolongation = Some [(0, DegreesOfFreedom (R3 0 0 0) (R3 0 0 0)),
                                 (5, DegreesOfFreedom (R3 0 0 0) (R3 0 0 0))]\<rparr>)],
      unsynchronized_vessels = {}, dirty_vessels = {}, kept_vessels = {},
      bubble = new_PhysicsBubble, initializing = False,
      planetarium_rotation = 0, current_time = 5, sun = 0\<rparr>"

section \<open>Properties\<close>

subsection \<open>Maps\<close>

lemma map_of_insert_key:
  "map_of m k = None \<Longrightarrow> map_of (insert_key k v m) k' = (if k' = k then Some v else map_of m k')"
  by (induction k v m rule: insert_key.induct) (auto split: if_splits)

lemma map_of_modify:
  "map_of (modify k f m) k' = (if k' = k then map_option f (map_of m k) else map_of m k')"
  by (induction m) (auto simp: modify_def)

lemma keys_modify: "map fst (modify k f m) = map fst m"
  by (induction m) (auto simp: modify_def)

lemma set_insert_key: "set (insert_key k v m) = insert (k, v) (set m)"
  by (induction k v m rule: insert_key.induct) auto

lemma sorted_insert_key:
  "sorted_wrt (<) (map fst m) \<Longrightarrow> map_of m k = None \<Longrightarrow>
   sorted_wrt (<) (map fst (insert_key k v m))"
  by (induction k v m rule: insert_key.induct) (fastforce simp: set_insert_key split: if_splits)+

lemma map_of_erase: "map_of (erase k m) k' = (if k' = k then None else map_of m k')"
  by (induction m) (auto simp: erase_def)

subsection \<open>Loops over entries\<close>

lemma those_eq_Some: "those xs = Some ys \<longleftrightarrow> xs = map Some ys"
  by (induction xs arbitrary: ys) (auto split: option.splits)

lemma for_each_entry_Some:
  "for_each_entry S body m = Some m' \<longleftrightarrow>
   list_all2 (\<lambda>kv kv'. fst kv' = fst kv \<and>
                (if S (fst kv) then body (fst kv) (snd kv) = Some (snd kv') else snd kv' = snd kv)) m m'"
  unfolding for_each_entry_def those_eq_Some
proof (induction m arbitrary: m')
  case Nil
  then show ?case by auto
next
  case (Cons kv m)
  show ?case
  proof (cases m')
    case Nil
    then show ?thesis by auto
  next
    case (Cons kv' m'')
    then show ?thesis
      using Cons.IH [of m''] by (cases kv') (auto split: if_splits)
  qed
qed

lemma for_each_entry_keys:
  "for_each_entry S body m = Some m' \<Longrightarrow> map fst m' = map fst m"
  unfolding for_each_entry_Some
  by (induction m m' rule: list_all2_induct) auto

lemma for_each_entry_map_of:
  "for_each_entry S body m = Some m' \<Longrightarrow>
   map_of m' k = (if S k then Option.bind (map_of m k) (body k) else map_of m k)"
  unfolding for_each_entry_Some
  by (induction m m' rule: list_all2_induct) (auto split: if_splits)

lemma map_of_map_values:
  "map_of (map (\<lambda>kv. (fst kv, F (fst kv) (snd kv))) m) k = map_option (F k) (map_of m k)"
  by (induction m) auto

subsection \<open>Trajectories\<close>

lemma last_time_snoc [simp]: "last_time (tr @ [(t, d)]) = Some t"
  by (simp add: last_time_def last_sample_def)

lemma last_degrees_of_freedom_snoc [simp]: "last_degrees_of_freedom (tr @ [(t, d)]) = Some d"
  by (simp add: last_degrees_of_freedom_def last_sample_def)

lemma Append_Some: "Append t d tr = Some tr' \<Longrightarrow> tr' = tr @ [(t, d)]"
  by (auto simp: Append_def split: if_splits)

lemma Append_empty [simp]: "Append t d [] = Some [(t, d)]"
  by (simp add: Append_def)

lemma Fork_last_time: "Fork t tr = Some f \<Longrightarrow> last_time f = Some t"
  by (induction tr arbitrary: f) (auto simp: last_time_def last_sample_def split: if_splits)

lemma Fork_single [simp]: "Fork t [(t, d)] = Some [(t, d)]"
  by simp

lemma CreateHistoryAndForkProlongation_Some [simp]:
  "CreateHistoryAndForkProlongation t d v =
     Some (v\<lparr>v_history := Some [(t, d)], v_prolongation := Some [(t, d)]\<rparr>)"
  by (simp add: CreateHistoryAndForkProlongation_def)

lemma c_CreateHistoryAndForkProlongation_Some [simp]:
  "c_CreateHistoryAndForkProlongation t d c =
     Some (c\<lparr>c_history := Some [(t, d)], c_prolongation := Some [(t, d)]\<rparr>)"
  by (simp add: c_CreateHistoryAndForkProlongation_def)

lemma ResetProlongation_Some:
  "ResetProlongation t v = Some v' \<Longrightarrow>
   \<exists>hist f. v_history v = Some hist \<and> Fork t hist = Some f \<and> v' = v\<lparr>v_prolongation := Some f\<rparr>"
  by (auto simp: ResetProlongation_def bind_eq_Some_conv)

lemma c_ResetProlongation_Some:
  "c_ResetProlongation t c = Some c' \<Longrightarrow>
   \<exists>hist f. c_history c = Some hist \<and> Fork t hist = Some f \<and> c' = c\<lparr>c_prolongation := Some f\<rparr>"
  by (auto simp: c_ResetProlongation_def bind_eq_Some_conv)

subsection \<open>Integration\<close>

lemma map_trajectories_fields [simp]:
  "unsynchronized_vessels (map_trajectories F p) = unsynchronized_vessels p"
  "dirty_vessels (map_trajectories F p) = dirty_vessels p"
  "kept_vessels (map_trajectories F p) = kept_vessels p"
  "initializing (map_trajectories F p) = initializing p"
  "planetarium_rotation (map_trajectories F p) = planetarium_rotation p"
  "current_time (map_trajectories F p) = current_time p"
  "sun (map_trajectories F p) = sun p"
  "map fst (vessels (map_trajectories F p)) = map fst (vessels p)"
  "map fst (celestials (map_trajectories F p)) = map fst (celestials p)"
  "next_state (bubble (map_trajectories F p)) = next_state (bubble p)"
  "bubble_vessels (bubble (map_trajectories F p)) = bubble_vessels (bubble p)"
  "empty_bubble (bubble (map_trajectories F p)) = empty_bubble (bubble p)"
  "contains (bubble (map_trajectories F p)) = contains (bubble p)"
  "from_centre_of_mass (bubble (map_trajectories F p)) = from_centre_of_mass (bubble p)"
  by (auto simp: map_trajectories_def bubble_vessels_def empty_bubble_def contains_def
      from_centre_of_mass_def fun_eq_iff bind_map_option comp_def split: option.splits)

lemma map_trajectories_vessel:
  "map_of (vessels (map_trajectories F p)) g =
     map_option (\<lambda>v. v\<lparr>v_history := map_option (F (VesselHistory g)) (v_history v),
                        v_prolongation := map_option (F (VesselProlongation g)) (v_prolongation v)\<rparr>)
       (map_of (vessels p) g)"
  unfolding map_trajectories_def
  using map_of_map_values [of "\<lambda>g v. v\<lparr>v_history := map_option (F (VesselHistory g)) (v_history v),
                        v_prolongation := map_option (F (VesselProlongation g)) (v_prolongation v)\<rparr>" "vessels p" g]
  by simp

lemma map_trajectories_celestial:
  "map_of (celestials (map_trajectories F p)) i =
     map_option (\<lambda>c. c\<lparr>c_history := map_option (F (CelestialHistory i)) (c_history c),
                        c_prolongation := map_option (F (CelestialProlongation i)) (c_prolongation c)\<rparr>)
       (map_of (celestials p) i)"
  unfolding map_trajectories_def
  using map_of_map_values [of "\<lambda>i c. c\<lparr>c_history := map_option (F (CelestialHistory i)) (c_history c),
                        c_prolongation := map_option (F (CelestialProlongation i)) (c_prolongation c)\<rparr>" "celestials p" i]
  by simp

lemma get_trajectory_map_trajectories:
  "get_trajectory (map_trajectories F p) s = map_option (F s) (get_trajectory p s)"
proof (cases s)
  case BubbleCentreOfMass
  then show ?thesis
    by (simp add: map_trajectories_def option.map_comp comp_def)
next
  case (CelestialHistory i)
  then show ?thesis
    by (cases "map_of (celestials p) i") (simp_all add: map_trajectories_celestial)
next
  case (CelestialProlongation i)
  then show ?thesis
    by (cases "map_of (celestials p) i") (simp_all add: map_trajectories_celestial)
next
  case (VesselHistory g)
  then show ?thesis
    by (cases "map_of (vessels p) g") (simp_all add: map_trajectories_vessel)
next
  case (VesselProlongation g)
  then show ?thesis
    by (cases "map_of (vessels p) g") (simp_all add: map_trajectories_vessel)
qed

lemma map_trajectories_id: "map_trajectories (\<lambda>s tr. tr) p = p"
  by (simp add: map_trajectories_def option.map_ident)

lemma floor_step_bounds:
  fixes a :: real
  assumes "0 \<le> a"
  shows "of_int \<lfloor>a / 10\<rfloor> * 10 \<le> a" and "a < of_int \<lfloor>a / 10\<rfloor> * 10 + 10"
    and "0 \<le> (of_int \<lfloor>a / 10\<rfloor> :: real) * 10" and "10 \<le> a \<Longrightarrow> 10 \<le> (of_int \<lfloor>a / 10\<rfloor> :: real) * 10"
proof -
  have 1: "of_int \<lfloor>a / 10\<rfloor> \<le> a / 10" by (rule of_int_floor_le)
  have 2: "a / 10 < of_int \<lfloor>a / 10\<rfloor> + 1" by linarith
  show "of_int \<lfloor>a / 10\<rfloor> * 10 \<le> a" using 1 by simp
  show "a < of_int \<lfloor>a / 10\<rfloor> * 10 + 10" using 2 by linarith
  have "0 \<le> \<lfloor>a / 10\<rfloor>" using assms by simp
  then show "0 \<le> (of_int \<lfloor>a / 10\<rfloor> :: real) * 10" by simp
  assume "10 \<le> a"
  then have "1 \<le> \<lfloor>a / 10\<rfloor>" by (simp add: le_floor_iff)
  then have "(1::real) \<le> of_int \<lfloor>a / 10\<rfloor>" by linarith
  then show "10 \<le> (of_int \<lfloor>a / 10\<rfloor> :: real) * 10" by simp
qed

lemma Integrate_integrated:
  assumes "Integrate \<Phi> tmax \<Delta>t exact slots p = Some p'"
  shows "\<exists>t0 t_end. integrated exact tmax slots p p' t0 t_end"
proof -
  from assms obtain trs lasts where
    trs: "map (get_trajectory p) slots = map Some trs" and
    lasts: "map last_sample trs = map Some lasts" and
    rest: "(case lasts of
             [] \<Rightarrow> None
           | s0 # _ \<Rightarrow>
               (if (\<exists>s \<in> set lasts. fst s \<noteq> fst s0) \<or> tmax < fst s0 \<or> \<Delta>t \<le> 0
                   \<or> \<not> distinct slots
                then None
                else
                  let t0 = fst s0;
                      t_end = (if exact then tmax
                               else t0 + of_int \<lfloor>(tmax - t0) / \<Delta>t\<rfloor> * \<Delta>t);
                      state = zip (map (slot_body p) slots) (map snd lasts)
                  in if t_end = t0 then Some p
                     else Some (map_trajectories
                            (\<lambda>s tr. if s \<in> set slots
                                     then tr @ [(t_end, evolve \<Phi> \<Delta>t t0 t_end state
                                                         (index_of s slots))]
                                     else tr) p))) = Some p'"
    by (auto simp: Integrate_def bind_eq_Some_conv those_eq_Some)
  from rest obtain s0 ls where ls: "lasts = s0 # ls" by (cases lasts) auto
  define t0 where "t0 = fst s0"
  define t_end where "t_end = (if exact then tmax else t0 + of_int \<lfloor>(tmax - t0) / \<Delta>t\<rfloor> * \<Delta>t)"
  from rest ls have same: "\<forall>s \<in> set lasts. fst s = t0" and le: "t0 \<le> tmax"
    by (auto simp: t0_def split: if_splits)
  from rest ls have p': "p' = (if t_end = t0 then p else map_trajectories
                            (\<lambda>s tr. if s \<in> set slots
                                     then tr @ [(t_end, evolve \<Phi> \<Delta>t t0 t_end
                                          (zip (map (slot_body p) slots) (map snd lasts))
                                                         (index_of s slots))]
                                     else tr) p)"
    unfolding t0_def t_end_def ls by (auto simp: Let_def split: if_splits cong: if_cong)
  have len: "length slots = length trs" "length trs = length lasts"
    using trs lasts by (metis length_map)+
  have ne: "slots \<noteq> []" using len ls by auto
  have each: "\<forall>s \<in> set slots. \<exists>tr. get_trajectory p s = Some tr \<and> last_time tr = Some t0"
  proof
    fix s assume "s \<in> set slots"
    then obtain i where i: "i < length slots" "slots ! i = s" by (auto simp: in_set_conv_nth)
    have "get_trajectory p s = Some (trs ! i)"
      using trs i len by (metis nth_map)
    moreover have "last_sample (trs ! i) = Some (lasts ! i)"
      using lasts i len by (metis nth_map)
    moreover have "fst (lasts ! i) = t0" using same i len by auto
    ultimately show "\<exists>tr. get_trajectory p s = Some tr \<and> last_time tr = Some t0"
      by (cases "lasts ! i") (auto simp: last_time_def)
  qed
  have bounds: "t0 \<le> t_end \<and> t_end \<le> tmax \<and>
     (if exact then t_end = tmax else tmax < t_end + \<Delta>t \<and> (t0 + \<Delta>t \<le> tmax \<longrightarrow> t0 + \<Delta>t \<le> t_end))"
    using le floor_step_bounds [of "tmax - t0"]
    by (auto simp: t_end_def \<Delta>t_def)
  have "\<exists>D. p' = map_trajectories
            (\<lambda>s tr. if s \<in> set slots \<and> t_end \<noteq> t0 then tr @ [(t_end, D s)] else tr) p"
  proof (cases "t_end = t0")
    case True
    then show ?thesis using p' by (simp add: map_trajectories_id)
  next
    case False
    then show ?thesis using p'
      by (intro exI [of _ "\<lambda>s. evolve \<Phi> \<Delta>t t0 t_end
                                          (zip (map (slot_body p) slots) (map snd lasts))
                                                         (index_of s slots)"]) simp
  qed
  with ne each bounds show ?thesis unfolding integrated_def by blast
qed


lemma Integrate_exact_samples:
  assumes int: "Integrate \<Phi> t \<Delta>t True slots p = Some p'"
  shows "\<exists>t0 state. integrated True t slots p p' t0 t \<and>
     integrator_input p slots = Some state \<and>
     (\<forall>s \<in> set slots. \<exists>tr. get_trajectory p s = Some tr \<and>
        get_trajectory p' s =
          Some (if t = t0 then tr
                else tr @ [(t, evolve \<Phi> \<Delta>t t0 t state (index_of s slots))]))"
proof -
  from int obtain trs lasts where
    trs: "those (map (get_trajectory p) slots) = Some trs" and
    lasts: "those (map last_sample trs) = Some lasts" and
    rest: "(case lasts of
             [] \<Rightarrow> None
           | s0 # _ \<Rightarrow>
               (if (\<exists>s \<in> set lasts. fst s \<noteq> fst s0) \<or> t < fst s0 \<or> \<Delta>t \<le> 0
                   \<or> \<not> distinct slots
                then None
                else
                  let t0 = fst s0;
                      t_end = (if True then t
                               else t0 + of_int \<lfloor>(t - t0) / \<Delta>t\<rfloor> * \<Delta>t);
                      state = zip (map (slot_body p) slots) (map snd lasts)
                  in if t_end = t0 then Some p
                     else Some (map_trajectories
                            (\<lambda>s tr. if s \<in> set slots
                                     then tr @ [(t_end, evolve \<Phi> \<Delta>t t0 t_end state
                                                         (index_of s slots))]
                                     else tr) p))) = Some p'"
    by (auto simp: Integrate_def bind_eq_Some_conv)
  define state where "state = zip (map (slot_body p) slots) (map snd lasts)"
  have inp: "integrator_input p slots = Some state"
    by (simp add: integrator_input_def trs lasts state_def)
  from Integrate_integrated [OF int] obtain t0 t_end where
    itg0: "integrated True t slots p p' t0 t_end" by blast
  then have "t_end = t" by (simp add: integrated_def)
  with itg0 have itg: "integrated True t slots p p' t0 t" by simp
  from rest obtain s0 ls where ls: "lasts = s0 # ls" by (cases lasts) auto
  from itg have each: "\<forall>s \<in> set slots. \<exists>tr. get_trajectory p s = Some tr \<and> last_time tr = Some t0"
    and ne: "slots \<noteq> []"
    by (simp_all add: integrated_def)
  have s0: "fst s0 = t0"
  proof -
    from ne obtain s ss where sl: "slots = s # ss" by (cases slots) auto
    with each obtain tr where tr: "get_trajectory p s = Some tr" "last_time tr = Some t0" by auto
    from trs sl tr obtain trs' where "trs = tr # trs'"
      by (auto simp: those_eq_Some)
    with lasts ls have "last_sample tr = Some s0" by (auto split: option.splits)
    with tr(2) show ?thesis by (simp add: last_time_def)
  qed
  define F where "F = (\<lambda>s tr. if s \<in> set slots
                                     then tr @ [(t, evolve \<Phi> \<Delta>t t0 t state (index_of s slots))]
                                     else tr)"
  from rest ls s0 have p': "p' = (if t = t0 then p else map_trajectories F p)"
    unfolding state_def F_def by (auto simp: Let_def split: if_splits cong: if_cong)
  have "\<exists>tr. get_trajectory p s = Some tr \<and>
        get_trajectory p' s =
          Some (if t = t0 then tr
                else tr @ [(t, evolve \<Phi> \<Delta>t t0 t state (index_of s slots))])"
    if s: "s \<in> set slots" for s
  proof -
    from s each obtain tr where tr: "get_trajectory p s = Some tr" by blast
    show ?thesis
    proof (cases "t = t0")
      case True
      with p' tr show ?thesis by simp
    next
      case False
      with p' have "get_trajectory p' s = map_option (F s) (get_trajectory p s)"
        by (simp only: get_trajectory_map_trajectories if_False)
      with tr s False show ?thesis by (simp add: F_def)
    qed
  qed
  with itg inp show ?thesis by blast
qed


subsection \<open>Cleaning up\<close>

lemma CleanUpVessels_loop_frame:
  "CleanUpVessels_loop xs p = Some p' \<Longrightarrow>
     celestials p' = celestials p \<and> bubble p' = bubble p \<and> initializing p' = initializing p \<and>
     planetarium_rotation p' = planetarium_rotation p \<and> current_time p' = current_time p \<and>
     sun p' = sun p \<and> set (vessels p') \<subseteq> set (vessels p) \<and>
     (\<forall>gv \<in> set xs. is_initialized (snd gv))"
proof (induction xs arbitrary: p)
  case Nil
  then show ?case by simp
next
  case (Cons gv xs)
  obtain g v where gv: "gv = (g, v)" by (cases gv)
  show ?case
  proof (cases "g \<in> kept_vessels p")
    case True
    with Cons.prems gv have "CleanUpVessels_loop xs (p\<lparr>kept_vessels := kept_vessels p - {g}\<rparr>) = Some p'"
      and "is_initialized v"
      by (auto simp: CheckVesselInvariants_def split: if_splits)
    with Cons.IH [of "p\<lparr>kept_vessels := kept_vessels p - {g}\<rparr>"] gv show ?thesis by simp
  next
    case False
    with Cons.prems gv have "CleanUpVessels_loop xs
             (p\<lparr>unsynchronized_vessels := unsynchronized_vessels p - {g},
                dirty_vessels := dirty_vessels p - {g},
                vessels := erase g (vessels p)\<rparr>) = Some p'"
      and "is_initialized v"
      by (auto simp: CheckVesselInvariants_def split: if_splits)
    with Cons.IH [of "p\<lparr>unsynchronized_vessels := unsynchronized_vessels p - {g},
                dirty_vessels := dirty_vessels p - {g},
                vessels := erase g (vessels p)\<rparr>"] gv show ?thesis
      by (auto simp: erase_def)
  qed
qed

lemma HistoryTime_cong:
  "celestials p' = celestials p \<Longrightarrow> sun p' = sun p \<Longrightarrow> HistoryTime p' = HistoryTime p"
  by (simp add: HistoryTime_def)

lemma CheckVesselInvariants_cong:
  "celestials p' = celestials p \<Longrightarrow> sun p' = sun p \<Longrightarrow>
   (g \<in> unsynchronized_vessels p' \<longleftrightarrow> g \<in> unsynchronized_vessels p) \<Longrightarrow>
   CheckVesselInvariants p' g v = CheckVesselInvariants p g v"
  by (simp add: CheckVesselInvariants_def HistoryTime_def)

lemma CleanUpVessels_loop_closed:
  "distinct (map fst xs) \<Longrightarrow> CleanUpVessels_loop xs p = Some p' \<Longrightarrow>
     vessels p' = filter (\<lambda>gv. fst gv \<notin> fst ` set xs \<or> fst gv \<in> kept_vessels p) (vessels p) \<and>
     kept_vessels p' = kept_vessels p - fst ` set xs \<and>
     unsynchronized_vessels p' = unsynchronized_vessels p - (fst ` set xs - kept_vessels p) \<and>
     dirty_vessels p' = dirty_vessels p - (fst ` set xs - kept_vessels p) \<and>
     (\<forall>gv \<in> set xs. CheckVesselInvariants p (fst gv) (snd gv))"
proof (induction xs arbitrary: p)
  case Nil
  then show ?case by simp
next
  case (Cons gv xs)
  obtain g v where gv: "gv = (g, v)" by (cases gv)
  from Cons.prems gv have g: "g \<notin> fst ` set xs" and d: "distinct (map fst xs)" by auto
  from Cons.prems gv have chk: "CheckVesselInvariants p g v" by (auto split: if_splits)
  show ?case
  proof (cases "g \<in> kept_vessels p")
    case True
    let ?q = "p\<lparr>kept_vessels := kept_vessels p - {g}\<rparr>"
    from True Cons.prems gv chk have run: "CleanUpVessels_loop xs ?q = Some p'" by simp
    note IH = Cons.IH [OF d run]
    have "\<forall>gv \<in> set xs. CheckVesselInvariants p (fst gv) (snd gv)"
      using IH CheckVesselInvariants_cong [of ?q p] by simp
    moreover have "vessels p' = filter (\<lambda>e. fst e \<notin> fst ` set (gv # xs) \<or> fst e \<in> kept_vessels p) (vessels p)"
      using IH True g gv by (auto intro!: filter_cong)
    ultimately show ?thesis using IH True g gv chk by auto
  next
    case False
    let ?q = "p\<lparr>unsynchronized_vessels := unsynchronized_vessels p - {g},
                dirty_vessels := dirty_vessels p - {g},
                vessels := erase g (vessels p)\<rparr>"
    from False Cons.prems gv chk have run: "CleanUpVessels_loop xs ?q = Some p'" by simp
    note IH = Cons.IH [OF d run]
    have "\<forall>gv' \<in> set xs. CheckVesselInvariants p (fst gv') (snd gv')"
    proof
      fix gv' assume in_xs: "gv' \<in> set xs"
      then have "fst gv' \<noteq> g" using g by auto
      then have "CheckVesselInvariants ?q (fst gv') (snd gv') = CheckVesselInvariants p (fst gv') (snd gv')"
        by (intro CheckVesselInvariants_cong) auto
      then show "CheckVesselInvariants p (fst gv') (snd gv')" using IH in_xs by auto
    qed
    moreover have "vessels p' = filter (\<lambda>e. fst e \<notin> fst ` set (gv # xs) \<or> fst e \<in> kept_vessels p) (vessels p)"
      using IH False g gv by (auto simp: erase_def intro!: filter_cong)
    ultimately show ?thesis using IH False g gv chk by auto
  qed
qed

lemma CleanUpVessels_closed:
  assumes "distinct (map fst (vessels p))" and "CleanUpVessels p = Some p'"
  shows "vessels p' = filter (\<lambda>gv. fst gv \<in> kept_vessels p) (vessels p)"
    and "kept_vessels p' = kept_vessels p - fst ` set (vessels p)"
    and "unsynchronized_vessels p' = unsynchronized_vessels p - (fst ` set (vessels p) - kept_vessels p)"
    and "dirty_vessels p' = dirty_vessels p - (fst ` set (vessels p) - kept_vessels p)"
    and "\<forall>gv \<in> set (vessels p). CheckVesselInvariants p (fst gv) (snd gv)"
proof -
  note * = CleanUpVessels_loop_closed [OF assms(1) assms(2) [unfolded CleanUpVessels_def]]
  show "vessels p' = filter (\<lambda>gv. fst gv \<in> kept_vessels p) (vessels p)"
    using * by (auto intro!: filter_cong)
qed (use CleanUpVessels_loop_closed [OF assms(1) assms(2) [unfolded CleanUpVessels_def]] in auto)

lemma extended_same [simp, intro]: "extended t tr tr"
  by (simp add: extended_def)

lemma extended_snoc [simp, intro]: "extended t tr (tr @ [(t, d)])"
  unfolding extended_def by blast

subsection \<open>The lists of trajectories\<close>

lemma slot_image_simps:
  "VesselProlongation g \<in> (\<lambda>gv. VesselProlongation (fst gv)) ` A \<longleftrightarrow> g \<in> fst ` A"
  "VesselHistory g \<in> (\<lambda>gv. VesselHistory (fst gv)) ` A \<longleftrightarrow> g \<in> fst ` A"
  "CelestialProlongation i \<in> (\<lambda>ic. CelestialProlongation (fst ic)) ` B \<longleftrightarrow> i \<in> fst ` B"
  "CelestialHistory i \<in> (\<lambda>ic. CelestialHistory (fst ic)) ` B \<longleftrightarrow> i \<in> fst ` B"
  by (auto simp: image_iff)

lemma fst_image_filter:
  "k \<in> fst ` {kv \<in> set m. P kv} \<longleftrightarrow> (\<exists>v. (k, v) \<in> set m \<and> P (k, v))"
  by (auto simp: image_iff Bex_def)

lemma in_prolongation_trajectories [simp]:
  "VesselProlongation g \<in> set (prolongation_trajectories p) \<longleftrightarrow>
     g \<in> fst ` set (vessels p) \<and> \<not> contains (bubble p) g"
  "CelestialProlongation i \<in> set (prolongation_trajectories p) \<longleftrightarrow> i \<in> fst ` set (celestials p)"
  "VesselHistory g \<notin> set (prolongation_trajectories p)"
  "CelestialHistory i \<notin> set (prolongation_trajectories p)"
  "BubbleCentreOfMass \<in> set (prolongation_trajectories p) \<longleftrightarrow> \<not> empty_bubble (bubble p)"
  unfolding prolongation_trajectories_def
  by (auto simp: slot_image_simps fst_image_filter image_iff Bex_def)

lemma in_history_trajectories [simp]:
  "VesselHistory g \<in> set (history_trajectories p) \<longleftrightarrow>
     (\<exists>v. (g, v) \<in> set (vessels p) \<and> is_synchronized v) \<and> \<not> contains (bubble p) g \<and> \<not> is_dirty p g"
  "CelestialHistory i \<in> set (history_trajectories p) \<longleftrightarrow> i \<in> fst ` set (celestials p)"
  "VesselProlongation g \<notin> set (history_trajectories p)"
  "CelestialProlongation i \<notin> set (history_trajectories p)"
  "BubbleCentreOfMass \<notin> set (history_trajectories p)"
  unfolding history_trajectories_def
  by (auto simp: slot_image_simps fst_image_filter image_iff Bex_def)

lemma in_synchronization_trajectories [simp]:
  "VesselProlongation g \<in> set (synchronization_trajectories p) \<longleftrightarrow>
     \<not> contains (bubble p) g \<and>
     ((g \<in> fst ` set (vessels p) \<and> g \<in> unsynchronized_vessels p) \<or>
      (g \<in> dirty_vessels p \<and> (\<exists>v. (g, v) \<in> set (vessels p) \<and> is_synchronized v)))"
  "CelestialProlongation i \<in> set (synchronization_trajectories p) \<longleftrightarrow> i \<in> fst ` set (celestials p)"
  "VesselHistory g \<notin> set (synchronization_trajectories p)"
  "CelestialHistory i \<notin> set (synchronization_trajectories p)"
  "BubbleCentreOfMass \<in> set (synchronization_trajectories p) \<longleftrightarrow> \<not> empty_bubble (bubble p)"
  unfolding synchronization_trajectories_def
  by (auto simp: slot_image_simps fst_image_filter image_iff Bex_def)
lemma map_of_in_keys: "map_of m k = Some v \<Longrightarrow> k \<in> fst ` set m"
  by (metis map_of_SomeD fst_conv image_eqI)

lemma contains_not_empty: "contains b g \<Longrightarrow> \<not> empty_bubble b"
  by (cases "current_state b") (auto simp: contains_def bubble_vessels_def empty_bubble_def)

lemma HistoryTime_map_trajectories:
  "HistoryTime (map_trajectories G p) =
     Option.bind (Option.bind (map_of (celestials p) (sun p)) c_history)
       (\<lambda>h. last_time (G (CelestialHistory (sun p)) h))"
  by (cases "map_of (celestials p) (sun p)")
     (auto simp: HistoryTime_def map_trajectories_celestial split: option.splits bind_splits)

lemma HistoryTime_map_trajectories_same:
  "(\<And>tr. G (CelestialHistory (sun p)) tr = tr) \<Longrightarrow> HistoryTime (map_trajectories G p) = HistoryTime p"
  by (cases "map_of (celestials p) (sun p)")
     (auto simp: HistoryTime_def map_trajectories_celestial option.map_ident split: option.splits bind_splits)

lemma for_each_entry_map_of_Some:
  assumes "for_each_entry S body m = Some m'" and "map_of m k = Some v"
  shows "\<exists>v'. map_of m' k = Some v' \<and> (if S k then body k v = Some v' else v' = v)"
proof -
  have "k \<in> fst ` set m'"
    using for_each_entry_keys [OF assms(1)] assms(2) map_of_in_keys
    by (metis set_map)
  then obtain v' where "map_of m' k = Some v'"
    by (metis map_of_eq_None_iff not_None_eq)
  then show ?thesis
    using for_each_entry_map_of [OF assms(1), of k] assms(2) by (auto split: if_splits)
qed

subsection \<open>Evolving the prolongations\<close>

lemma EvolveProlongationsAndBubble_effect:
  assumes ok: "EvolveProlongationsAndBubble \<Phi> t p = Some p'"
  shows "unsynchronized_vessels p' = unsynchronized_vessels p"
    and "dirty_vessels p' = dirty_vessels p"
    and "kept_vessels p' = kept_vessels p"
    and "initializing p' = initializing p"
    and "planetarium_rotation p' = planetarium_rotation p"
    and "current_time p' = current_time p"
    and "sun p' = sun p"
    and "map fst (vessels p') = map fst (vessels p)"
    and "map fst (celestials p') = map fst (celestials p)"
    and "contains (bubble p') = contains (bubble p)"
    and "next_state (bubble p') = next_state (bubble p)"
    and "HistoryTime p' = HistoryTime p"
    and "\<And>g v. map_of (vessels p) g = Some v \<Longrightarrow>
           \<exists>pr pr'. v_prolongation v = Some pr \<and>
                    map_of (vessels p') g = Some (v\<lparr>v_prolongation := Some pr'\<rparr>) \<and>
                    last_time pr' = Some t \<and> extended t pr pr'"
    and "\<And>i c. map_of (celestials p) i = Some c \<Longrightarrow>
           \<exists>pr pr'. c_prolongation c = Some pr \<and>
                    map_of (celestials p') i = Some (c\<lparr>c_prolongation := Some pr'\<rparr>) \<and>
                    last_time pr' = Some t \<and> extended t pr pr'"
    and "\<And>g v. map_of (vessels p) g = Some v \<Longrightarrow> contains (bubble p) g \<Longrightarrow>
           \<exists>pr s com off. v_prolongation v = Some pr \<and>
                    current_state (bubble p') = Some s \<and>
                    last_degrees_of_freedom (centre_of_mass_trajectory s) = Some com \<and>
                    from_centre_of_mass (bubble p') g = Some off \<and>
                    map_of (vessels p') g =
                      Some (v\<lparr>v_prolongation := Some (pr @ [(t, dof_plus (arithmetic \<Phi>) com off)])\<rparr>)"
proof -
  from ok obtain p1 where
    int: "Integrate \<Phi> t \<Delta>t True (prolongation_trajectories p) p = Some p1" and
    rest: "(if \<not> empty_bubble (bubble p1)
          then do { s \<leftarrow> current_state (bubble p1);
                    centre_of_mass \<leftarrow> last_degrees_of_freedom (centre_of_mass_trajectory s);
                    vs \<leftarrow> for_each_entry (contains (bubble p1))
                            (\<lambda>g v.
                               do { from_com \<leftarrow> from_centre_of_mass (bubble p1) g;
                                    pr \<leftarrow> v_prolongation v;
                                    pr' \<leftarrow> Append t (dof_plus (arithmetic \<Phi>) centre_of_mass from_com) pr;
                                    Some (v\<lparr>v_prolongation := Some pr'\<rparr>) })
                            (vessels p1);
                    Some (p1\<lparr>vessels := vs\<rparr>) }
          else Some p1) = Some p'"
    by (auto simp: EvolveProlongationsAndBubble_def bind_eq_Some_conv)
  from Integrate_integrated [OF int] obtain t0 D where
    each: "\<forall>s \<in> set (prolongation_trajectories p).
             \<exists>tr. get_trajectory p s = Some tr \<and> last_time tr = Some t0" and
    p1: "p1 = map_trajectories
            (\<lambda>s tr. if s \<in> set (prolongation_trajectories p) \<and> t \<noteq> t0
                     then tr @ [(t, D s)] else tr) p"
    unfolding integrated_def by (auto split: if_splits)
  define G where "G = (\<lambda>s tr. if s \<in> set (prolongation_trajectories p) \<and> t \<noteq> t0
                     then tr @ [(t, D s)] else tr)"
  have p1G: "p1 = map_trajectories G p" using p1 by (simp add: G_def)
  have frame1: "celestials p' = celestials p1" "bubble p' = bubble p1"
    "unsynchronized_vessels p' = unsynchronized_vessels p1" "dirty_vessels p' = dirty_vessels p1"
    "kept_vessels p' = kept_vessels p1" "initializing p' = initializing p1"
    "planetarium_rotation p' = planetarium_rotation p1" "current_time p' = current_time p1"
    "sun p' = sun p1" "map fst (vessels p') = map fst (vessels p1)"
    using rest by (auto simp: bind_eq_Some_conv for_each_entry_keys split: if_splits)
  show "unsynchronized_vessels p' = unsynchronized_vessels p"
    and "dirty_vessels p' = dirty_vessels p"
    and "kept_vessels p' = kept_vessels p"
    and "initializing p' = initializing p"
    and "planetarium_rotation p' = planetarium_rotation p"
    and "current_time p' = current_time p"
    and "sun p' = sun p"
    and "map fst (vessels p') = map fst (vessels p)"
    and "map fst (celestials p') = map fst (celestials p)"
    and "contains (bubble p') = contains (bubble p)"
    and "next_state (bubble p') = next_state (bubble p)"
    using frame1 by (simp_all add: p1G)
  have cel: "map_of (celestials p') i =
      map_option (\<lambda>c. c\<lparr>c_history := map_option (G (CelestialHistory i)) (c_history c),
                         c_prolongation := map_option (G (CelestialProlongation i)) (c_prolongation c)\<rparr>)
        (map_of (celestials p) i)" for i
    using frame1 by (simp add: p1G map_trajectories_celestial)
  have Ghist: "G (CelestialHistory i) = (\<lambda>tr. tr)" "G (VesselHistory g) = (\<lambda>tr. tr)" for i g
    by (simp_all add: G_def fun_eq_iff)
  show "HistoryTime p' = HistoryTime p"
    using HistoryTime_cong [OF frame1(1) frame1(9)]
    by (simp add: p1G HistoryTime_map_trajectories_same Ghist)
  {
    fix i c assume c: "map_of (celestials p) i = Some c"
    then have "CelestialProlongation i \<in> set (prolongation_trajectories p)"
      by (simp add: map_of_in_keys)
    with each c obtain tr where tr: "c_prolongation c = Some tr" "last_time tr = Some t0"
      by fastforce
    have *: "map_of (celestials p') i = Some (c\<lparr>c_prolongation := Some (G (CelestialProlongation i) tr)\<rparr>)"
      using c tr by (simp add: cel Ghist option.map_ident)
    show "\<exists>pr pr'. c_prolongation c = Some pr \<and>
                    map_of (celestials p') i = Some (c\<lparr>c_prolongation := Some pr'\<rparr>) \<and>
                    last_time pr' = Some t \<and> extended t pr pr'"
    proof (cases "t = t0")
      case True
      then have "G (CelestialProlongation i) tr = tr" by (simp add: G_def)
      with * tr True show ?thesis by auto
    next
      case False
      then have "G (CelestialProlongation i) tr = tr @ [(t, D (CelestialProlongation i))]"
        using c by (simp add: G_def map_of_in_keys)
      with * tr show ?thesis by auto
    qed
  }
  have bubble_case: "\<exists>pr s com off. v_prolongation v = Some pr \<and>
                    current_state (bubble p') = Some s \<and>
                    last_degrees_of_freedom (centre_of_mass_trajectory s) = Some com \<and>
                    from_centre_of_mass (bubble p') g = Some off \<and>
                    map_of (vessels p') g =
                      Some (v\<lparr>v_prolongation := Some (pr @ [(t, dof_plus (arithmetic \<Phi>) com off)])\<rparr>)"
    if v: "map_of (vessels p) g = Some v" and True: "contains (bubble p) g" for g v
  proof -
    from True have notin: "VesselProlongation g \<notin> set (prolongation_trajectories p)" by simp
    then have v1': "map_of (vessels p1) g = Some v"
      using v by (cases "v_prolongation v")
        (simp_all add: p1G map_trajectories_vessel Ghist option.map_ident G_def)
    from True have ne: "\<not> empty_bubble (bubble p1)" "contains (bubble p1) g"
      by (simp_all add: p1G contains_not_empty)
    with rest obtain s com vs where
      s: "current_state (bubble p1) = Some s" and
      com: "last_degrees_of_freedom (centre_of_mass_trajectory s) = Some com" and
      vs: "for_each_entry (contains (bubble p1))
                          (\<lambda>g v.
                             do { from_com \<leftarrow> from_centre_of_mass (bubble p1) g;
                                  pr \<leftarrow> v_prolongation v;
                                  pr' \<leftarrow> Append t (dof_plus (arithmetic \<Phi>) com from_com) pr;
                                  Some (v\<lparr>v_prolongation := Some pr'\<rparr>) })
                          (vessels p1) = Some vs" and p': "p' = p1\<lparr>vessels := vs\<rparr>"
      by (auto simp: bind_eq_Some_conv split: if_splits)
    from for_each_entry_map_of_Some [OF vs v1'] ne p'
    obtain x where "map_of (vessels p') g = Some x" and
      "do { from_com \<leftarrow> from_centre_of_mass (bubble p1) g;
                                  pr \<leftarrow> v_prolongation v;
                                  pr' \<leftarrow> Append t (dof_plus (arithmetic \<Phi>) com from_com) pr;
                                  Some (v\<lparr>v_prolongation := Some pr'\<rparr>) } = Some x"
      by auto
    then obtain off pr where
      "v_prolongation v = Some pr" "from_centre_of_mass (bubble p1) g = Some off"
      "map_of (vessels p') g = Some (v\<lparr>v_prolongation := Some (pr @ [(t, dof_plus (arithmetic \<Phi>) com off)])\<rparr>)"
      by (auto simp: bind_eq_Some_conv dest!: Append_Some)
    with s com p' show ?thesis by auto
  qed
  show "\<exists>pr s com off. v_prolongation v = Some pr \<and>
                    current_state (bubble p') = Some s \<and>
                    last_degrees_of_freedom (centre_of_mass_trajectory s) = Some com \<and>
                    from_centre_of_mass (bubble p') g = Some off \<and>
                    map_of (vessels p') g =
                      Some (v\<lparr>v_prolongation := Some (pr @ [(t, dof_plus (arithmetic \<Phi>) com off)])\<rparr>)"
    if "map_of (vessels p) g = Some v" "contains (bubble p) g" for g v
    using bubble_case that by blast
  {
    fix g v assume v: "map_of (vessels p) g = Some v"
    have v1: "map_of (vessels p1) g =
        Some (v\<lparr>v_prolongation := map_option (G (VesselProlongation g)) (v_prolongation v)\<rparr>)"
      using v by (simp add: p1G map_trajectories_vessel Ghist option.map_ident)
    show "\<exists>pr pr'. v_prolongation v = Some pr \<and>
                    map_of (vessels p') g = Some (v\<lparr>v_prolongation := Some pr'\<rparr>) \<and>
                    last_time pr' = Some t \<and> extended t pr pr'"
    proof (cases "contains (bubble p) g")
      case False
      then have in_list: "VesselProlongation g \<in> set (prolongation_trajectories p)"
        using v by (simp add: map_of_in_keys)
      with each v obtain tr where tr: "v_prolongation v = Some tr" "last_time tr = Some t0"
        by fastforce
      have same: "map_of (vessels p') g = map_of (vessels p1) g"
        using rest False
        by (auto simp: bind_eq_Some_conv p1G for_each_entry_map_of split: if_splits)
      show ?thesis
      proof (cases "t = t0")
        case True
        then have "G (VesselProlongation g) tr = tr" by (simp add: G_def)
        with same v1 tr True show ?thesis by auto
      next
        case False
        then have "G (VesselProlongation g) tr = tr @ [(t, D (VesselProlongation g))]"
          using in_list by (simp add: G_def)
        with same v1 tr show ?thesis by auto
      qed
    next
      case True
      from bubble_case [OF v True] show ?thesis by (metis extended_snoc last_time_snoc)
    qed
  }
qed

lemma EvolveProlongationsAndBubble_Integrate:
  assumes ok: "EvolveProlongationsAndBubble \<Phi> t p = Some p'"
  shows "\<exists>pI t0 state. Integrate \<Phi> t \<Delta>t True (prolongation_trajectories p) p = Some pI \<and>
      t0 \<le> t \<and>
      integrator_input p (prolongation_trajectories p) = Some state \<and>
      (\<forall>s \<in> set (prolongation_trajectories p).
         \<exists>tr. get_trajectory p s = Some tr \<and> last_time tr = Some t0 \<and>
           get_trajectory pI s =
             Some (if t = t0 then tr
                   else tr @ [(t, evolve \<Phi> \<Delta>t t0 t state
                                    (index_of s (prolongation_trajectories p)))])) \<and>
      celestials p' = celestials pI \<and> bubble p' = bubble pI \<and>
      (\<forall>g. \<not> contains (bubble p) g \<longrightarrow> map_of (vessels p') g = map_of (vessels pI) g) \<and>
      (\<forall>g v. map_of (vessels p) g = Some v \<and> contains (bubble p) g \<longrightarrow>
         (\<exists>pr s com off. v_prolongation v = Some pr \<and>
            current_state (bubble pI) = Some s \<and>
            last_sample (centre_of_mass_trajectory s) = Some (t, com) \<and>
            from_centre_of_mass (bubble pI) g = Some off \<and>
            map_of (vessels p') g =
              Some (v\<lparr>v_prolongation := Some (pr @ [(t, dof_plus (arithmetic \<Phi>) com off)])\<rparr>)))"
proof -
  from ok obtain p1 where
    int: "Integrate \<Phi> t \<Delta>t True (prolongation_trajectories p) p = Some p1" and
    rest: "(if \<not> empty_bubble (bubble p1)
          then do { s \<leftarrow> current_state (bubble p1);
                    centre_of_mass \<leftarrow> last_degrees_of_freedom (centre_of_mass_trajectory s);
                    vs \<leftarrow> for_each_entry (contains (bubble p1))
                            (\<lambda>g v.
                               do { from_com \<leftarrow> from_centre_of_mass (bubble p1) g;
                                    pr \<leftarrow> v_prolongation v;
                                    pr' \<leftarrow> Append t (dof_plus (arithmetic \<Phi>) centre_of_mass from_com) pr;
                                    Some (v\<lparr>v_prolongation := Some pr'\<rparr>) })
                            (vessels p1);
                    Some (p1\<lparr>vessels := vs\<rparr>) }
          else Some p1) = Some p'"
    by (auto simp: EvolveProlongationsAndBubble_def bind_eq_Some_conv)
  from Integrate_exact_samples [OF int] obtain t0 state where
    itg: "integrated True t (prolongation_trajectories p) p p1 t0 t" and
    inp: "integrator_input p (prolongation_trajectories p) = Some state" and
    smp: "\<forall>s \<in> set (prolongation_trajectories p).
         \<exists>tr. get_trajectory p s = Some tr \<and>
           get_trajectory p1 s =
             Some (if t = t0 then tr
                   else tr @ [(t, evolve \<Phi> \<Delta>t t0 t state
                                    (index_of s (prolongation_trajectories p)))])"
    by blast
  have te: "t = t" by simp
  from itg have le: "t0 \<le> t" by (simp add: integrated_def)
  from itg te obtain D where
    each: "\<forall>s \<in> set (prolongation_trajectories p).
             \<exists>tr. get_trajectory p s = Some tr \<and> last_time tr = Some t0" and
    p1: "p1 = map_trajectories
            (\<lambda>s tr. if s \<in> set (prolongation_trajectories p) \<and> t \<noteq> t0
                     then tr @ [(t, D s)] else tr) p"
    unfolding integrated_def by (auto split: if_splits)
  define G where "G = (\<lambda>s tr. if s \<in> set (prolongation_trajectories p) \<and> t \<noteq> t0
                     then tr @ [(t, D s)] else tr)"
  have p1G: "p1 = map_trajectories G p" using p1 by (simp add: G_def)
  have frame1: "celestials p' = celestials p1" "bubble p' = bubble p1"
    using rest by (auto simp: bind_eq_Some_conv split: if_splits)
  have nb: "map_of (vessels p') g = map_of (vessels p1) g" if "\<not> contains (bubble p) g" for g
    using rest that
    by (auto simp: bind_eq_Some_conv p1G for_each_entry_map_of split: if_splits)
  have Ghist: "G (VesselHistory g) = (\<lambda>tr. tr)" for g
    by (simp add: G_def fun_eq_iff)
  have bc: "\<exists>pr s com off. v_prolongation v = Some pr \<and>
            current_state (bubble p1) = Some s \<and>
            last_sample (centre_of_mass_trajectory s) = Some (t, com) \<and>
            from_centre_of_mass (bubble p1) g = Some off \<and>
            map_of (vessels p') g =
              Some (v\<lparr>v_prolongation := Some (pr @ [(t, dof_plus (arithmetic \<Phi>) com off)])\<rparr>)"
    if v: "map_of (vessels p) g = Some v" and True: "contains (bubble p) g" for g v
  proof -
    from True have notin: "VesselProlongation g \<notin> set (prolongation_trajectories p)" by simp
    then have v1': "map_of (vessels p1) g = Some v"
      using v by (cases "v_prolongation v")
        (simp_all add: p1G map_trajectories_vessel Ghist option.map_ident G_def)
    from True have ne0: "\<not> empty_bubble (bubble p)" by (rule contains_not_empty)
    from True have ne: "\<not> empty_bubble (bubble p1)" "contains (bubble p1) g"
      by (simp_all add: p1G contains_not_empty)
    with rest obtain s com vs where
      s: "current_state (bubble p1) = Some s" and
      com: "last_degrees_of_freedom (centre_of_mass_trajectory s) = Some com" and
      vs: "for_each_entry (contains (bubble p1))
                          (\<lambda>g v.
                             do { from_com \<leftarrow> from_centre_of_mass (bubble p1) g;
                                  pr \<leftarrow> v_prolongation v;
                                  pr' \<leftarrow> Append t (dof_plus (arithmetic \<Phi>) com from_com) pr;
                                  Some (v\<lparr>v_prolongation := Some pr'\<rparr>) })
                          (vessels p1) = Some vs" and p': "p' = p1\<lparr>vessels := vs\<rparr>"
      by (auto simp: bind_eq_Some_conv split: if_splits)
    from ne0 have "BubbleCentreOfMass \<in> set (prolongation_trajectories p)" by simp
    with each obtain tr where tr: "get_trajectory p BubbleCentreOfMass = Some tr"
      "last_time tr = Some t0" by blast
    have "get_trajectory p1 BubbleCentreOfMass = Some (G BubbleCentreOfMass tr)"
      by (simp only: p1G get_trajectory_map_trajectories tr option.map)
    moreover have "last_time (G BubbleCentreOfMass tr) = Some t"
      using tr(2) ne0 by (simp add: G_def)
    ultimately have "last_time (centre_of_mass_trajectory s) = Some t"
      using s by simp
    with com have ls: "last_sample (centre_of_mass_trajectory s) = Some (t, com)"
      by (auto simp: last_time_def last_degrees_of_freedom_def)
    from for_each_entry_map_of_Some [OF vs v1'] ne p'
    obtain x where "map_of (vessels p') g = Some x" and
      "do { from_com \<leftarrow> from_centre_of_mass (bubble p1) g;
                                  pr \<leftarrow> v_prolongation v;
                                  pr' \<leftarrow> Append t (dof_plus (arithmetic \<Phi>) com from_com) pr;
                                  Some (v\<lparr>v_prolongation := Some pr'\<rparr>) } = Some x"
      by auto
    then obtain off pr where
      "v_prolongation v = Some pr" "from_centre_of_mass (bubble p1) g = Some off"
      "map_of (vessels p') g = Some (v\<lparr>v_prolongation := Some (pr @ [(t, dof_plus (arithmetic \<Phi>) com off)])\<rparr>)"
      by (auto simp: bind_eq_Some_conv dest!: Append_Some)
    with s ls show ?thesis by (intro exI conjI)
  qed
  have bc': "\<forall>g v. map_of (vessels p) g = Some v \<and> contains (bubble p) g \<longrightarrow>
         (\<exists>pr s com off. v_prolongation v = Some pr \<and>
            current_state (bubble p1) = Some s \<and>
            last_sample (centre_of_mass_trajectory s) = Some (t, com) \<and>
            from_centre_of_mass (bubble p1) g = Some off \<and>
            map_of (vessels p') g =
              Some (v\<lparr>v_prolongation := Some (pr @ [(t, dof_plus (arithmetic \<Phi>) com off)])\<rparr>))"
    using bc by (intro allI impI) (elim conjE)
  have nb': "\<forall>g. \<not> contains (bubble p) g \<longrightarrow> map_of (vessels p') g = map_of (vessels p1) g"
    using nb by (intro allI impI)
  have smp': "\<forall>s \<in> set (prolongation_trajectories p).
         \<exists>tr. get_trajectory p s = Some tr \<and> last_time tr = Some t0 \<and>
           get_trajectory p1 s =
             Some (if t = t0 then tr
                   else tr @ [(t, evolve \<Phi> \<Delta>t t0 t state
                                    (index_of s (prolongation_trajectories p)))])"
  proof
    fix s assume s: "s \<in> set (prolongation_trajectories p)"
    with smp obtain tr where tr: "get_trajectory p s = Some tr"
      "get_trajectory p1 s =
             Some (if t = t0 then tr
                   else tr @ [(t, evolve \<Phi> \<Delta>t t0 t state
                                    (index_of s (prolongation_trajectories p)))])"
      by blast
    from each s tr(1) have "last_time tr = Some t0" by auto
    with tr show "\<exists>tr. get_trajectory p s = Some tr \<and> last_time tr = Some t0 \<and>
           get_trajectory p1 s =
             Some (if t = t0 then tr
                   else tr @ [(t, evolve \<Phi> \<Delta>t t0 t state
                                    (index_of s (prolongation_trajectories p)))])"
      by (intro exI conjI)
  qed
  show ?thesis
    by (intro exI [of _ p1] exI [of _ t0] exI [of _ state] conjI int le inp smp' frame1 nb' bc')
qed

lemma same_keys_map_of:
  "map fst m' = map fst m \<Longrightarrow> map_of m' k = Some v' \<Longrightarrow> \<exists>v. map_of m k = Some v"
  by (metis map_of_in_keys map_of_eq_None_iff not_None_eq set_map)

subsection \<open>The steps of AdvanceTime\<close>

lemma AdvanceTime_Some:
  assumes "AdvanceTime \<Phi> t rot p = Some p'"
  obtains p1 b ht p5 p6 where
    "\<not> initializing p" "current_time p < t"
    "CleanUpVessels p = Some p1"
    "Prepare \<Phi> (PlanetariumRotation p1) (current_time p1) t (vessels p1) (bubble p1) = Some b"
    "HistoryTime (p1\<lparr>bubble := b\<rparr>) = Some ht"
    "(if round_double (arithmetic \<Phi>) (ht + \<Delta>t) < t then history_step \<Phi> t (p1\<lparr>bubble := b\<rparr>)
      else Some (p1\<lparr>bubble := b\<rparr>)) = Some p5"
    "EvolveProlongationsAndBubble \<Phi> t p5 = Some p6"
    "p' = p6\<lparr>current_time := t, planetarium_rotation := rot\<rparr>"
proof -
  from assms have pre: "\<not> initializing p" "current_time p < t"
    by (auto simp: AdvanceTime_def split: if_splits)
  with assms have "do { p1 \<leftarrow> CleanUpVessels p;
             b \<leftarrow> Prepare \<Phi> (PlanetariumRotation p1) (current_time p1) t (vessels p1) (bubble p1);
             ht \<leftarrow> HistoryTime (p1\<lparr>bubble := b\<rparr>);
             p5 \<leftarrow> (if round_double (arithmetic \<Phi>) (ht + \<Delta>t) < t
                    then history_step \<Phi> t (p1\<lparr>bubble := b\<rparr>)
                    else Some (p1\<lparr>bubble := b\<rparr>));
             p6 \<leftarrow> EvolveProlongationsAndBubble \<Phi> t p5;
             Some (p6\<lparr>current_time := t, planetarium_rotation := rot\<rparr>) } = Some p'"
    unfolding AdvanceTime_def by simp
  then have "\<exists>p1 b ht p5 p6.
    CleanUpVessels p = Some p1 \<and>
    Prepare \<Phi> (PlanetariumRotation p1) (current_time p1) t (vessels p1) (bubble p1) = Some b \<and>
    HistoryTime (p1\<lparr>bubble := b\<rparr>) = Some ht \<and>
    (if round_double (arithmetic \<Phi>) (ht + \<Delta>t) < t then history_step \<Phi> t (p1\<lparr>bubble := b\<rparr>)
     else Some (p1\<lparr>bubble := b\<rparr>)) = Some p5 \<and>
    EvolveProlongationsAndBubble \<Phi> t p5 = Some p6 \<and>
    p' = p6\<lparr>current_time := t, planetarium_rotation := rot\<rparr>"
    unfolding bind_eq_Some_conv option.inject by blast
  with pre that show thesis by blast
qed


lemma AdvanceTime_before_prolongations:
  assumes "AdvanceTime \<Phi> t rot p = Some p'"
  obtains p5 p6 where "before_prolongations \<Phi> t p = Some p5"
    "EvolveProlongationsAndBubble \<Phi> t p5 = Some p6"
    "p' = p6\<lparr>current_time := t, planetarium_rotation := rot\<rparr>"
proof -
  from assms obtain p1 b ht p5 p6 where
    "CleanUpVessels p = Some p1"
    "Prepare \<Phi> (PlanetariumRotation p1) (current_time p1) t (vessels p1) (bubble p1) = Some b"
    "HistoryTime (p1\<lparr>bubble := b\<rparr>) = Some ht"
    "(if round_double (arithmetic \<Phi>) (ht + \<Delta>t) < t then history_step \<Phi> t (p1\<lparr>bubble := b\<rparr>)
      else Some (p1\<lparr>bubble := b\<rparr>)) = Some p5"
    "EvolveProlongationsAndBubble \<Phi> t p5 = Some p6"
    "p' = p6\<lparr>current_time := t, planetarium_rotation := rot\<rparr>"
    by (rule AdvanceTime_Some)
  then show thesis
    by (intro that [of p5 p6]) (simp_all add: before_prolongations_def)
qed

lemma distinct_map_of_iff:
  "distinct (map fst m) \<Longrightarrow> (k, v) \<in> set m \<longleftrightarrow> map_of m k = Some v"
  by (auto dest: map_of_SomeD)

subsection \<open>Evolving the histories\<close>

lemma EvolveHistories_effect:
  assumes ok: "EvolveHistories \<Phi> t p = Some p'"
    and h: "HistoryTime p = Some h" and step: "h + \<Delta>t < t"
  shows "\<exists>h1 D. h + \<Delta>t \<le> h1 \<and> h1 \<le> t \<and> t < h1 + \<Delta>t \<and> current_time p \<le> h1 \<and>
           HistoryTime p' = Some h1 \<and>
           p' = map_trajectories
                  (\<lambda>s tr. if s \<in> set (history_trajectories p) then tr @ [(h1, D s)] else tr) p \<and>
           (\<forall>s \<in> set (history_trajectories p).
               \<exists>tr. get_trajectory p s = Some tr \<and> last_time tr = Some h)"
proof -
  from ok obtain ht where
    int: "Integrate \<Phi> t \<Delta>t False (history_trajectories p) p = Some p'" and
    ht: "HistoryTime p' = Some ht" "current_time p' \<le> ht"
    by (auto simp: EvolveHistories_def bind_eq_Some_conv split: if_splits)
  from Integrate_integrated [OF int] obtain t0 t_end D where
    bounds: "t0 \<le> t_end" "t_end \<le> t" "t < t_end + \<Delta>t" "t0 + \<Delta>t \<le> t \<longrightarrow> t0 + \<Delta>t \<le> t_end" and
    each: "\<forall>s \<in> set (history_trajectories p).
             \<exists>tr. get_trajectory p s = Some tr \<and> last_time tr = Some t0" and
    p': "p' = map_trajectories
            (\<lambda>s tr. if s \<in> set (history_trajectories p) \<and> t_end \<noteq> t0
                     then tr @ [(t_end, D s)] else tr) p"
    unfolding integrated_def by (auto split: if_splits)
  from h obtain s hist where s: "map_of (celestials p) (sun p) = Some s"
    "c_history s = Some hist" "last_time hist = Some h"
    by (auto simp: HistoryTime_def bind_eq_Some_conv)
  then have in_list: "CelestialHistory (sun p) \<in> set (history_trajectories p)"
    by (simp add: map_of_in_keys)
  with each s have t0: "t0 = h" by fastforce
  with bounds step have gt: "h + \<Delta>t \<le> t_end" "t_end \<noteq> t0" by (auto simp: \<Delta>t_def)
  then have p'': "p' = map_trajectories
            (\<lambda>s tr. if s \<in> set (history_trajectories p) then tr @ [(t_end, D s)] else tr) p"
    using p' by simp
  have "HistoryTime p' = Some t_end"
    unfolding p'' using s in_list by (simp add: HistoryTime_map_trajectories)
  with ht have "current_time p \<le> t_end" by (simp add: p'')
  with gt bounds p'' each t0 \<open>HistoryTime p' = Some t_end\<close> show ?thesis by blast
qed

subsection \<open>Resetting the prolongations\<close>

lemma ResetProlongations_effect:
  assumes ok: "ResetProlongations p = Some p'" and h: "HistoryTime p = Some h"
  shows "unsynchronized_vessels p' = unsynchronized_vessels p"
    and "dirty_vessels p' = dirty_vessels p"
    and "kept_vessels p' = kept_vessels p"
    and "initializing p' = initializing p"
    and "planetarium_rotation p' = planetarium_rotation p"
    and "current_time p' = current_time p"
    and "sun p' = sun p"
    and "map fst (vessels p') = map fst (vessels p)"
    and "map fst (celestials p') = map fst (celestials p)"
    and "bubble p' = bubble p"
    and "HistoryTime p' = Some h"
    and "\<And>g v. map_of (vessels p) g = Some v \<Longrightarrow>
           \<exists>hist f. v_history v = Some hist \<and> Fork h hist = Some f \<and>
                    map_of (vessels p') g = Some (v\<lparr>v_prolongation := Some f\<rparr>)"
    and "\<And>i c. map_of (celestials p) i = Some c \<Longrightarrow>
           \<exists>hist f. c_history c = Some hist \<and> Fork h hist = Some f \<and>
                    map_of (celestials p') i = Some (c\<lparr>c_prolongation := Some f\<rparr>)"
proof -
  from ok h obtain vs cs where
    vs: "for_each_entry (\<lambda>g. True) (\<lambda>g v. ResetProlongation h v) (vessels p) = Some vs" and
    cs: "for_each_entry (\<lambda>i. True) (\<lambda>i c. c_ResetProlongation h c) (celestials p) = Some cs" and
    p': "p' = p\<lparr>vessels := vs, celestials := cs\<rparr>"
    by (auto simp: ResetProlongations_def bind_eq_Some_conv)
  show "unsynchronized_vessels p' = unsynchronized_vessels p"
    and "dirty_vessels p' = dirty_vessels p"
    and "kept_vessels p' = kept_vessels p"
    and "initializing p' = initializing p"
    and "planetarium_rotation p' = planetarium_rotation p"
    and "current_time p' = current_time p"
    and "sun p' = sun p"
    and "map fst (vessels p') = map fst (vessels p)"
    and "map fst (celestials p') = map fst (celestials p)"
    and "bubble p' = bubble p"
    using for_each_entry_keys [OF vs] for_each_entry_keys [OF cs] by (simp_all add: p')
  show cel: "\<exists>hist f. c_history c = Some hist \<and> Fork h hist = Some f \<and>
                    map_of (celestials p') i = Some (c\<lparr>c_prolongation := Some f\<rparr>)"
    if "map_of (celestials p) i = Some c" for i c
    using for_each_entry_map_of_Some [OF cs that] c_ResetProlongation_Some [of h c]
    by (auto simp: p')
  show "\<exists>hist f. v_history v = Some hist \<and> Fork h hist = Some f \<and>
                    map_of (vessels p') g = Some (v\<lparr>v_prolongation := Some f\<rparr>)"
    if "map_of (vessels p) g = Some v" for g v
    using for_each_entry_map_of_Some [OF vs that] ResetProlongation_Some [of h v]
    by (auto simp: p')
  from h obtain s hist where s: "map_of (celestials p) (sun p) = Some s"
    "c_history s = Some hist" "last_time hist = Some h"
    by (auto simp: HistoryTime_def bind_eq_Some_conv)
  from cel [OF s(1)] s show "HistoryTime p' = Some h"
    by (auto simp: HistoryTime_def p')
qed

subsection \<open>Synchronizing\<close>

lemma SynchronizeBubbleHistories_effect:
  assumes ok: "SynchronizeBubbleHistories \<Phi> p = Some p'" and h: "HistoryTime p = Some h"
    and d: "distinct (map fst (vessels p))"
  shows "celestials p' = celestials p"
    and "bubble p' = bubble p"
    and "kept_vessels p' = kept_vessels p"
    and "initializing p' = initializing p"
    and "planetarium_rotation p' = planetarium_rotation p"
    and "current_time p' = current_time p"
    and "sun p' = sun p"
    and "map fst (vessels p') = map fst (vessels p)"
    and "\<And>g. g \<in> unsynchronized_vessels p' \<longleftrightarrow>
           g \<in> unsynchronized_vessels p \<and>
           \<not> (contains (bubble p) g \<and> (\<exists>v. map_of (vessels p) g = Some v \<and> \<not> is_synchronized v))"
    and "\<And>g. g \<in> dirty_vessels p' \<longleftrightarrow>
           g \<in> dirty_vessels p \<and> \<not> (contains (bubble p) g \<and> map_of (vessels p) g \<noteq> None)"
    and "\<And>g v. map_of (vessels p) g = Some v \<Longrightarrow> \<not> contains (bubble p) g \<Longrightarrow>
           map_of (vessels p') g = Some v"
    and "\<And>g v. map_of (vessels p) g = Some v \<Longrightarrow> contains (bubble p) g \<Longrightarrow>
           \<exists>d. map_of (vessels p') g =
                  Some (case v_history v of
                          None \<Rightarrow> v\<lparr>v_history := Some [(h, d)], v_prolongation := Some [(h, d)]\<rparr>
                        | Some hist \<Rightarrow> v\<lparr>v_history := Some (hist @ [(h, d)])\<rparr>)"
proof -
  define body :: "DegreesOfFreedom \<Rightarrow> GUID \<Rightarrow> Vessel \<Rightarrow> Vessel option" where "body = (\<lambda>centre_of_mass g v.
                     do { from_com \<leftarrow> from_centre_of_mass (bubble p) g;
                          ht \<leftarrow> HistoryTime p;
                          v' \<leftarrow> (if is_synchronized v
                                 then do { hist \<leftarrow> v_history v;
                                           hist' \<leftarrow> Append ht (dof_plus (arithmetic \<Phi>) centre_of_mass from_com) hist;
                                           Some (v\<lparr>v_history := Some hist'\<rparr>) }
                                 else do { v' \<leftarrow> CreateHistoryAndForkProlongation ht
                                                   (dof_plus (arithmetic \<Phi>) centre_of_mass from_com) v;
                                           if g \<in> unsynchronized_vessels p then Some v' else None });
                          if g \<in> dirty_vessels p then Some v' else None })"
  from ok obtain s com vs where
    vs: "for_each_entry (contains (bubble p)) (body com) (vessels p) = Some vs" and
    p': "p' = p\<lparr>vessels := vs,
                  unsynchronized_vessels :=
                    unsynchronized_vessels p -
                      fst ` set (filter (\<lambda>gv. contains (bubble p) (fst gv)
                                               \<and> \<not> is_synchronized (snd gv)) (vessels p)),
                  dirty_vessels :=
                    dirty_vessels p -
                      fst ` set (filter (\<lambda>gv. contains (bubble p) (fst gv)) (vessels p))\<rparr>"
    unfolding SynchronizeBubbleHistories_def body_def bind_eq_Some_conv option.inject by blast
  show "celestials p' = celestials p"
    and "bubble p' = bubble p"
    and "kept_vessels p' = kept_vessels p"
    and "initializing p' = initializing p"
    and "planetarium_rotation p' = planetarium_rotation p"
    and "current_time p' = current_time p"
    and "sun p' = sun p"
    and "map fst (vessels p') = map fst (vessels p)"
    using for_each_entry_keys [OF vs] by (simp_all add: p')
  show "g \<in> unsynchronized_vessels p' \<longleftrightarrow>
           g \<in> unsynchronized_vessels p \<and>
           \<not> (contains (bubble p) g \<and> (\<exists>v. map_of (vessels p) g = Some v \<and> \<not> is_synchronized v))" for g
    using distinct_map_of_iff [OF d] by (force simp: p')
  show "g \<in> dirty_vessels p' \<longleftrightarrow>
           g \<in> dirty_vessels p \<and> \<not> (contains (bubble p) g \<and> map_of (vessels p) g \<noteq> None)" for g
  proof -
    have "g \<in> fst ` set (filter (\<lambda>gv. contains (bubble p) (fst gv)) (vessels p)) \<longleftrightarrow>
          contains (bubble p) g \<and> map_of (vessels p) g \<noteq> None"
      by (force simp: map_of_eq_None_iff)
    then show ?thesis by (simp add: p')
  qed
  show "map_of (vessels p') g = Some v"
    if "map_of (vessels p) g = Some v" "\<not> contains (bubble p) g" for g v
    using for_each_entry_map_of_Some [OF vs that(1)] that(2) by (simp add: p')
  show "\<exists>d. map_of (vessels p') g =
                  Some (case v_history v of
                          None \<Rightarrow> v\<lparr>v_history := Some [(h, d)], v_prolongation := Some [(h, d)]\<rparr>
                        | Some hist \<Rightarrow> v\<lparr>v_history := Some (hist @ [(h, d)])\<rparr>)"
    if "map_of (vessels p) g = Some v" "contains (bubble p) g" for g v
  proof -
    from for_each_entry_map_of_Some [OF vs that(1)] that(2)
    obtain v' where v': "map_of (vessels p') g = Some v'" "body com g v = Some v'"
      by (auto simp: p')
    from v'(2) h obtain off where
      "v' = (case v_history v of
                          None \<Rightarrow> v\<lparr>v_history := Some [(h, dof_plus (arithmetic \<Phi>) com off)],
                                     v_prolongation := Some [(h, dof_plus (arithmetic \<Phi>) com off)]\<rparr>
                        | Some hist \<Rightarrow> v\<lparr>v_history := Some (hist @ [(h, dof_plus (arithmetic \<Phi>) com off)])\<rparr>)"
      by (auto simp: body_def bind_eq_Some_conv is_synchronized_def
          split: if_splits dest!: Append_Some)
    with v' show ?thesis by blast
  qed
qed

lemma SynchronizeNewVesselsAndCleanDirtyVessels_effect:
  assumes ok: "SynchronizeNewVesselsAndCleanDirtyVessels \<Phi> p = Some p'"
    and h: "HistoryTime p = Some h"
    and d: "distinct (map fst (vessels p))"
    and chk: "\<And>g v. map_of (vessels p) g = Some v \<Longrightarrow>
                (g \<in> unsynchronized_vessels p \<longleftrightarrow> v_history v = None)"
  shows "unsynchronized_vessels p' = {}"
    and "dirty_vessels p' = {}"
    and "kept_vessels p' = kept_vessels p"
    and "initializing p' = initializing p"
    and "planetarium_rotation p' = planetarium_rotation p"
    and "current_time p' = current_time p"
    and "sun p' = sun p"
    and "map fst (vessels p') = map fst (vessels p)"
    and "map fst (celestials p') = map fst (celestials p)"
    and "contains (bubble p') = contains (bubble p)"
    and "next_state (bubble p') = next_state (bubble p)"
    and "HistoryTime p' = Some h"
    and "\<And>i c. map_of (celestials p) i = Some c \<Longrightarrow>
           \<exists>pr'. map_of (celestials p') i = Some (c\<lparr>c_prolongation := pr'\<rparr>)"
    and "\<And>g v. map_of (vessels p) g = Some v \<Longrightarrow>
           (if contains (bubble p) g \<or> g \<in> unsynchronized_vessels p \<or> g \<in> dirty_vessels p
            then \<exists>d pr'. map_of (vessels p') g =
                   Some (case v_history v of
                           None \<Rightarrow> v\<lparr>v_history := Some [(h, d)], v_prolongation := Some [(h, d)]\<rparr>
                         | Some hist \<Rightarrow> v\<lparr>v_history := Some (hist @ [(h, d)]),
                                            v_prolongation := pr'\<rparr>)
            else map_of (vessels p') g = Some v)"
    and "\<And>g v hist. map_of (vessels p) g = Some v \<Longrightarrow> v_history v = Some hist \<Longrightarrow>
           \<not> contains (bubble p) g \<Longrightarrow> g \<in> dirty_vessels p \<Longrightarrow>
           \<exists>pr pr1 d. v_prolongation v = Some pr \<and> extended h pr pr1 \<and>
              last_degrees_of_freedom pr1 = Some d \<and>
              map_of (vessels p') g =
                Some (v\<lparr>v_prolongation := Some pr1, v_history := Some (hist @ [(h, d)])\<rparr>)"
proof -
  define body3 :: "Plugin \<Rightarrow> GUID \<Rightarrow> Vessel \<Rightarrow> Vessel option" where "body3 = (\<lambda>p2 g v.
                      if contains (bubble p2) g then None
                      else do { ht \<leftarrow> HistoryTime p2;
                                pr \<leftarrow> v_prolongation v;
                                d \<leftarrow> last_degrees_of_freedom pr;
                                CreateHistoryAndForkProlongation ht d v })"
  define body4 :: "Plugin \<Rightarrow> GUID \<Rightarrow> Vessel \<Rightarrow> Vessel option" where "body4 = (\<lambda>p3 g v.
                      if contains (bubble p3) g then None
                      else do { ht \<leftarrow> HistoryTime p3;
                                hist \<leftarrow> v_history v;
                                pr \<leftarrow> v_prolongation v;
                                d \<leftarrow> last_degrees_of_freedom pr;
                                hist' \<leftarrow> Append ht d hist;
                                Some (v\<lparr>v_history := Some hist'\<rparr>) })"
  from ok h obtain p1 p2 vs3 vs4 where
    int: "Integrate \<Phi> h \<Delta>t True (synchronization_trajectories p) p = Some p1" and
    sb: "(if \<not> empty_bubble (bubble p1) then SynchronizeBubbleHistories \<Phi> p1 else Some p1) = Some p2" and
    l3: "for_each_entry (\<lambda>g. g \<in> unsynchronized_vessels p2) (body3 p2) (vessels p2) = Some vs3" and
    l4: "for_each_entry (\<lambda>g. g \<in> dirty_vessels p2 - unsynchronized_vessels p2)
           (body4 (p2\<lparr>vessels := vs3,
                     dirty_vessels := dirty_vessels p2 - unsynchronized_vessels p2,
                     unsynchronized_vessels := {}\<rparr>)) vs3 = Some vs4" and
    p': "p' = p2\<lparr>vessels := vs4, dirty_vessels := {}, unsynchronized_vessels := {}\<rparr>"
    unfolding SynchronizeNewVesselsAndCleanDirtyVessels_def body3_def body4_def
    by (auto simp: bind_eq_Some_conv Let_def)
  from Integrate_integrated [OF int] obtain t0 D where
    p1: "p1 = map_trajectories
            (\<lambda>s tr. if s \<in> set (synchronization_trajectories p) \<and> h \<noteq> t0
                     then tr @ [(h, D s)] else tr) p"
    unfolding integrated_def by (auto split: if_splits)
  define G where "G = (\<lambda>s tr. if s \<in> set (synchronization_trajectories p) \<and> h \<noteq> t0
                     then tr @ [(h, D s)] else tr)"
  have p1G: "p1 = map_trajectories G p" using p1 by (simp add: G_def)
  have Ghist: "G (CelestialHistory i) = (\<lambda>tr. tr)" "G (VesselHistory g) = (\<lambda>tr. tr)" for i g
    by (simp_all add: G_def fun_eq_iff)
  have h1: "HistoryTime p1 = Some h"
    using h by (simp add: p1G HistoryTime_map_trajectories_same Ghist)
  have d1: "distinct (map fst (vessels p1))" using d by (simp add: p1G)
  have v1: "map_of (vessels p1) g =
        Some (v\<lparr>v_prolongation := map_option (G (VesselProlongation g)) (v_prolongation v)\<rparr>)"
    if "map_of (vessels p) g = Some v" for g v
    using that by (simp add: p1G map_trajectories_vessel Ghist option.map_ident)
  have c1: "map_of (celestials p1) i =
        Some (c\<lparr>c_prolongation := map_option (G (CelestialProlongation i)) (c_prolongation c)\<rparr>)"
    if "map_of (celestials p) i = Some c" for i c
    using that by (simp add: p1G map_trajectories_celestial Ghist option.map_ident)
  have frame2: "celestials p2 = celestials p1" "bubble p2 = bubble p1"
    "kept_vessels p2 = kept_vessels p1" "initializing p2 = initializing p1"
    "planetarium_rotation p2 = planetarium_rotation p1" "current_time p2 = current_time p1"
    "sun p2 = sun p1" "map fst (vessels p2) = map fst (vessels p1)"
    using sb SynchronizeBubbleHistories_effect(1-8) [OF _ h1 d1, of \<Phi> p2]
    by (auto split: if_splits)
  have u2: "g \<in> unsynchronized_vessels p2 \<longleftrightarrow>
           g \<in> unsynchronized_vessels p1 \<and>
           \<not> (contains (bubble p1) g \<and> (\<exists>v. map_of (vessels p1) g = Some v \<and> \<not> is_synchronized v))" for g
    using sb SynchronizeBubbleHistories_effect(9) [OF _ h1 d1, of \<Phi> p2 g] contains_not_empty [of "bubble p1" g]
    by (auto split: if_splits)
  have dd2: "g \<in> dirty_vessels p2 \<longleftrightarrow>
           g \<in> dirty_vessels p1 \<and> \<not> (contains (bubble p1) g \<and> map_of (vessels p1) g \<noteq> None)" for g
    using sb SynchronizeBubbleHistories_effect(10) [OF _ h1 d1, of \<Phi> p2 g] contains_not_empty [of "bubble p1" g]
    by (auto split: if_splits)
  have out2: "map_of (vessels p2) g = Some v"
    if "map_of (vessels p1) g = Some v" "\<not> contains (bubble p1) g" for g v
    using sb SynchronizeBubbleHistories_effect(11) [OF _ h1 d1 that, of \<Phi> p2] that
    by (auto split: if_splits)
  have in2: "\<exists>d. map_of (vessels p2) g =
                  Some (case v_history v of
                          None \<Rightarrow> v\<lparr>v_history := Some [(h, d)], v_prolongation := Some [(h, d)]\<rparr>
                        | Some hist \<Rightarrow> v\<lparr>v_history := Some (hist @ [(h, d)])\<rparr>)"
    if "map_of (vessels p1) g = Some v" "contains (bubble p1) g" for g v
    using sb SynchronizeBubbleHistories_effect(12) [OF _ h1 d1 that, of \<Phi> p2] that contains_not_empty [of "bubble p1" g]
    by (auto split: if_splits)
  have h2: "HistoryTime p2 = Some h"
    using h1 HistoryTime_cong [OF frame2(1) frame2(7)] by simp
  have keys3: "map fst vs3 = map fst (vessels p2)" by (rule for_each_entry_keys [OF l3])
  have keys4: "map fst vs4 = map fst vs3" by (rule for_each_entry_keys [OF l4])
  show "unsynchronized_vessels p' = {}"
    and "dirty_vessels p' = {}"
    and "kept_vessels p' = kept_vessels p"
    and "initializing p' = initializing p"
    and "planetarium_rotation p' = planetarium_rotation p"
    and "current_time p' = current_time p"
    and "sun p' = sun p"
    and "map fst (vessels p') = map fst (vessels p)"
    and "map fst (celestials p') = map fst (celestials p)"
    and "contains (bubble p') = contains (bubble p)"
    and "next_state (bubble p') = next_state (bubble p)"
    using frame2 keys3 keys4 by (simp_all add: p' p1G)
  show "HistoryTime p' = Some h"
    using h2 by (simp add: p' HistoryTime_def)
  show "\<exists>pr'. map_of (celestials p') i = Some (c\<lparr>c_prolongation := pr'\<rparr>)"
    if "map_of (celestials p) i = Some c" for i c
    using c1 [OF that] frame2 by (auto simp: p')
  have Gext: "extended h tr (G s tr)" for s tr
    by (simp add: G_def)
  have caseC: "\<exists>pr pr1 d. v_prolongation v = Some pr \<and> extended h pr pr1 \<and>
              last_degrees_of_freedom pr1 = Some d \<and>
              map_of (vessels p') g =
                Some (v\<lparr>v_prolongation := Some pr1, v_history := Some (hist @ [(h, d)])\<rparr>)"
    if v: "map_of (vessels p) g = Some v" and hist: "v_history v = Some hist"
      and C: "\<not> contains (bubble p) g" "g \<in> dirty_vessels p" for g v hist
  proof -
    note v1 = v1 [OF v]
    have cont: "contains (bubble p1) g = contains (bubble p) g"
      "contains (bubble p2) g = contains (bubble p) g"
      by (simp_all add: frame2 p1G)
    from chk [OF v] hist have nu: "g \<notin> unsynchronized_vessels p" by simp
    from out2 [OF v1] C cont
    have v2: "map_of (vessels p2) g =
      Some (v\<lparr>v_prolongation := map_option (G (VesselProlongation g)) (v_prolongation v)\<rparr>)"
      by simp
    have nu2: "g \<notin> unsynchronized_vessels p2"
      using u2 [of g] nu by (simp add: p1G)
    have id2: "g \<in> dirty_vessels p2"
      using dd2 [of g] C cont by (simp add: p1G)
    from for_each_entry_map_of_Some [OF l3 v2] nu2
    have v3: "map_of vs3 g =
      Some (v\<lparr>v_prolongation := map_option (G (VesselProlongation g)) (v_prolongation v)\<rparr>)"
      by auto
    from for_each_entry_map_of_Some [OF l4 v3] nu2 id2
    obtain v4 where v4: "map_of (vessels p') g = Some v4"
      "body4 (p2\<lparr>vessels := vs3,
                   dirty_vessels := dirty_vessels p2 - unsynchronized_vessels p2,
                   unsynchronized_vessels := {}\<rparr>) g
         (v\<lparr>v_prolongation := map_option (G (VesselProlongation g)) (v_prolongation v)\<rparr>) = Some v4"
      by (auto simp: p')
    have "HistoryTime (p2\<lparr>vessels := vs3,
                   dirty_vessels := dirty_vessels p2 - unsynchronized_vessels p2,
                   unsynchronized_vessels := {}\<rparr>) = Some h"
      using h2 by (simp add: HistoryTime_def)
    with v4(2) hist obtain pr dd where
      "v_prolongation v = Some pr"
      "last_degrees_of_freedom (G (VesselProlongation g) pr) = Some dd"
      "v4 = v\<lparr>v_prolongation := Some (G (VesselProlongation g) pr),
               v_history := Some (hist @ [(h, dd)])\<rparr>"
      by (auto simp: body4_def bind_eq_Some_conv split: if_splits dest!: Append_Some)
    with v4(1) Gext [of pr "VesselProlongation g"] show ?thesis by blast
  qed
  show "\<exists>pr pr1 d. v_prolongation v = Some pr \<and> extended h pr pr1 \<and>
              last_degrees_of_freedom pr1 = Some d \<and>
              map_of (vessels p') g =
                Some (v\<lparr>v_prolongation := Some pr1, v_history := Some (hist @ [(h, d)])\<rparr>)"
    if "map_of (vessels p) g = Some v" "v_history v = Some hist"
      "\<not> contains (bubble p) g" "g \<in> dirty_vessels p" for g v hist
    using caseC that by blast
  show "(if contains (bubble p) g \<or> g \<in> unsynchronized_vessels p \<or> g \<in> dirty_vessels p
            then \<exists>d pr'. map_of (vessels p') g =
                   Some (case v_history v of
                           None \<Rightarrow> v\<lparr>v_history := Some [(h, d)], v_prolongation := Some [(h, d)]\<rparr>
                         | Some hist \<Rightarrow> v\<lparr>v_history := Some (hist @ [(h, d)]),
                                            v_prolongation := pr'\<rparr>)
            else map_of (vessels p') g = Some v)"
    if v: "map_of (vessels p) g = Some v" for g v
  proof -
    note v1 = v1 [OF v]
    have cont: "contains (bubble p1) g = contains (bubble p) g"
      "contains (bubble p2) g = contains (bubble p) g"
      by (simp_all add: frame2 p1G)
    have un1: "g \<in> unsynchronized_vessels p1 \<longleftrightarrow> v_history v = None"
      "g \<in> dirty_vessels p1 \<longleftrightarrow> g \<in> dirty_vessels p"
      using chk [OF v] by (simp_all add: p1G)
    consider (A) "contains (bubble p) g"
      | (B) "\<not> contains (bubble p) g" "g \<in> unsynchronized_vessels p"
      | (C) "\<not> contains (bubble p) g" "g \<notin> unsynchronized_vessels p" "g \<in> dirty_vessels p"
      | (D) "\<not> contains (bubble p) g" "g \<notin> unsynchronized_vessels p" "g \<notin> dirty_vessels p"
      by blast
    then show ?thesis
    proof cases
      case A
      then have "VesselProlongation g \<notin> set (synchronization_trajectories p)" by simp
      then have "G (VesselProlongation g) = (\<lambda>tr. tr)"
        unfolding G_def by (simp only: fun_eq_iff) simp
      then have v1': "map_of (vessels p1) g = Some v"
        using v1 by (simp add: option.map_ident)
      from in2 [OF v1'] A cont obtain dd where
        v2: "map_of (vessels p2) g =
                  Some (case v_history v of
                          None \<Rightarrow> v\<lparr>v_history := Some [(h, dd)], v_prolongation := Some [(h, dd)]\<rparr>
                        | Some hist \<Rightarrow> v\<lparr>v_history := Some (hist @ [(h, dd)])\<rparr>)"
        by auto
      have nu2: "g \<notin> unsynchronized_vessels p2"
        using u2 [of g] un1 v1' A cont by (auto simp: is_synchronized_def)
      have nd2: "g \<notin> dirty_vessels p2"
        using dd2 [of g] v1' A cont by auto
      from for_each_entry_map_of_Some [OF l3 v2] nu2
      have v3: "map_of vs3 g =
                  Some (case v_history v of
                          None \<Rightarrow> v\<lparr>v_history := Some [(h, dd)], v_prolongation := Some [(h, dd)]\<rparr>
                        | Some hist \<Rightarrow> v\<lparr>v_history := Some (hist @ [(h, dd)])\<rparr>)"
        by auto
      from for_each_entry_map_of_Some [OF l4 v3] nd2
      have "map_of (vessels p') g =
                  Some (case v_history v of
                          None \<Rightarrow> v\<lparr>v_history := Some [(h, dd)], v_prolongation := Some [(h, dd)]\<rparr>
                        | Some hist \<Rightarrow> v\<lparr>v_history := Some (hist @ [(h, dd)])\<rparr>)"
        by (auto simp: p')
      then have "map_of (vessels p') g =
                   Some (case v_history v of
                           None \<Rightarrow> v\<lparr>v_history := Some [(h, dd)], v_prolongation := Some [(h, dd)]\<rparr>
                         | Some hist \<Rightarrow> v\<lparr>v_history := Some (hist @ [(h, dd)]),
                                            v_prolongation := v_prolongation v\<rparr>)"
        by (cases "v_history v") simp_all
      with A show ?thesis by auto
    next
      case B
      with chk [OF v] have hist: "v_history v = None" by simp
      from out2 [OF v1] B cont
      have v2: "map_of (vessels p2) g =
        Some (v\<lparr>v_prolongation := map_option (G (VesselProlongation g)) (v_prolongation v)\<rparr>)"
        by simp
      have iu2: "g \<in> unsynchronized_vessels p2"
        using u2 [of g] un1 B cont hist by auto
      from for_each_entry_map_of_Some [OF l3 v2] iu2
      obtain v3 where v3: "map_of vs3 g = Some v3"
        "body3 p2 g (v\<lparr>v_prolongation := map_option (G (VesselProlongation g)) (v_prolongation v)\<rparr>) = Some v3"
        by auto
      from v3(2) h2 obtain dd where
        v3': "v3 = v\<lparr>v_history := Some [(h, dd)], v_prolongation := Some [(h, dd)]\<rparr>"
        by (auto simp: body3_def bind_eq_Some_conv split: if_splits)
      from for_each_entry_map_of_Some [OF l4 v3(1)] iu2
      have "map_of (vessels p') g = Some v3" by (auto simp: p')
      with v3' hist B show ?thesis by auto
    next
      case C
      with chk [OF v] obtain hist where hist: "v_history v = Some hist" by auto
      from caseC [OF v hist C(1) C(3)] obtain pr1 dd where
        "map_of (vessels p') g =
                Some (v\<lparr>v_prolongation := Some pr1, v_history := Some (hist @ [(h, dd)])\<rparr>)"
        by blast
      with hist have "map_of (vessels p') g =
                   Some (case v_history v of
                           None \<Rightarrow> v\<lparr>v_history := Some [(h, dd)], v_prolongation := Some [(h, dd)]\<rparr>
                         | Some hist \<Rightarrow> v\<lparr>v_history := Some (hist @ [(h, dd)]),
                                            v_prolongation := Some pr1\<rparr>)"
        by simp
      with C show ?thesis by auto
    next
      case D
      then have "VesselProlongation g \<notin> set (synchronization_trajectories p)" by simp
      then have "G (VesselProlongation g) = (\<lambda>tr. tr)"
        unfolding G_def by (simp only: fun_eq_iff) simp
      then have v1': "map_of (vessels p1) g = Some v"
        using v1 by (simp add: option.map_ident)
      from out2 [OF v1'] D cont have v2: "map_of (vessels p2) g = Some v" by simp
      have nu2: "g \<notin> unsynchronized_vessels p2"
        using u2 [of g] D by (simp add: p1G)
      have nd2: "g \<notin> dirty_vessels p2"
        using dd2 [of g] D by (simp add: p1G)
      from for_each_entry_map_of_Some [OF l3 v2] nu2
      have v3: "map_of vs3 g = Some v" by auto
      from for_each_entry_map_of_Some [OF l4 v3] nd2
      have "map_of (vessels p') g = Some v" by (auto simp: p')
      with D show ?thesis by simp
    qed
  qed
qed

lemma empty_bubble_not_contains: "empty_bubble b \<Longrightarrow> \<not> contains b g"
  using contains_not_empty by blast

lemma Fork_same_end: "Fork t (tr @ [(t, d)]) = Some f \<Longrightarrow> last_time f = Some t"
  by (rule Fork_last_time)

subsection \<open>The history step\<close>

lemma history_step_effect:
  assumes ok: "history_step \<Phi> t p = Some p'"
    and h: "HistoryTime p = Some h" and step: "h + \<Delta>t < t"
    and d: "distinct (map fst (vessels p))"
    and chk: "\<And>g v. map_of (vessels p) g = Some v \<Longrightarrow>
                (g \<in> unsynchronized_vessels p \<longleftrightarrow> v_history v = None)"
  shows "\<exists>h1. h + \<Delta>t \<le> h1 \<and> h1 \<le> t \<and> t < h1 + \<Delta>t \<and> current_time p \<le> h1 \<and>
           HistoryTime p' = Some h1 \<and>
           unsynchronized_vessels p' = {} \<and> dirty_vessels p' = {} \<and>
           kept_vessels p' = kept_vessels p \<and> initializing p' = initializing p \<and>
           planetarium_rotation p' = planetarium_rotation p \<and>
           current_time p' = current_time p \<and> sun p' = sun p \<and>
           map fst (vessels p') = map fst (vessels p) \<and>
           map fst (celestials p') = map fst (celestials p) \<and>
           contains (bubble p') = contains (bubble p) \<and>
           next_state (bubble p') = next_state (bubble p) \<and>
           (\<forall>i c. map_of (celestials p) i = Some c \<longrightarrow>
              (\<exists>hist d f. c_history c = Some hist \<and> last_time hist = Some h \<and>
                  Fork h1 (hist @ [(h1, d)]) = Some f \<and>
                  map_of (celestials p') i =
                    Some (c\<lparr>c_history := Some (hist @ [(h1, d)]), c_prolongation := Some f\<rparr>))) \<and>
           (\<forall>g v. map_of (vessels p) g = Some v \<longrightarrow>
              (\<exists>hist' f d. map_of (vessels p') g =
                    Some (v\<lparr>v_history := Some hist', v_prolongation := Some f\<rparr>) \<and>
                  Fork h1 hist' = Some f \<and>
                  hist' = (case v_history v of None \<Rightarrow> [(h1, d)] | Some hist \<Rightarrow> hist @ [(h1, d)]))) \<and>
           (\<forall>g v hist. map_of (vessels p) g = Some v \<and> v_history v = Some hist \<and>
                 \<not> contains (bubble p) g \<and> g \<in> dirty_vessels p \<longrightarrow>
              (\<exists>pr pr1 d f. v_prolongation v = Some pr \<and> extended h1 pr pr1 \<and>
                  last_degrees_of_freedom pr1 = Some d \<and>
                  Fork h1 (hist @ [(h1, d)]) = Some f \<and>
                  map_of (vessels p') g =
                    Some (v\<lparr>v_history := Some (hist @ [(h1, d)]), v_prolongation := Some f\<rparr>)))"
proof -
  from ok obtain p3 p4 where
    eh: "EvolveHistories \<Phi> t p = Some p3" and
    sy: "(if has_unsynchronized_vessels p3 \<or> has_dirty_vessels p3 \<or> \<not> empty_bubble (bubble p3)
          then SynchronizeNewVesselsAndCleanDirtyVessels \<Phi> p3 else Some p3) = Some p4" and
    rs: "ResetProlongations p4 = Some p'"
    unfolding history_step_def bind_eq_Some_conv by blast
  from EvolveHistories_effect [OF eh h step] obtain h1 D where
    b: "h + \<Delta>t \<le> h1" "h1 \<le> t" "t < h1 + \<Delta>t" "current_time p \<le> h1" and
    h3: "HistoryTime p3 = Some h1" and
    p3: "p3 = map_trajectories
                  (\<lambda>s tr. if s \<in> set (history_trajectories p) then tr @ [(h1, D s)] else tr) p" and
    each: "\<forall>s \<in> set (history_trajectories p).
               \<exists>tr. get_trajectory p s = Some tr \<and> last_time tr = Some h"
    by blast
  define G where "G = (\<lambda>s tr. if s \<in> set (history_trajectories p) then tr @ [(h1, D s)] else tr)"
  have p3G: "p3 = map_trajectories G p" using p3 by (simp add: G_def)
  have Gpro: "G (CelestialProlongation i) = (\<lambda>tr. tr)" "G (VesselProlongation g) = (\<lambda>tr. tr)" for i g
    by (simp_all add: G_def fun_eq_iff)
  have d3: "distinct (map fst (vessels p3))" using d by (simp add: p3G)
  have v3: "map_of (vessels p3) g =
        Some (v\<lparr>v_history := map_option (G (VesselHistory g)) (v_history v)\<rparr>)"
    if "map_of (vessels p) g = Some v" for g v
    using that by (simp add: p3G map_trajectories_vessel Gpro option.map_ident)
  have c3: "\<exists>hist. c_history c = Some hist \<and> last_time hist = Some h \<and>
        map_of (celestials p3) i = Some (c\<lparr>c_history := Some (hist @ [(h1, D (CelestialHistory i))])\<rparr>)"
    if c: "map_of (celestials p) i = Some c" for i c
  proof -
    have inl: "CelestialHistory i \<in> set (history_trajectories p)"
      using c by (simp add: map_of_in_keys)
    with each c obtain hist where "c_history c = Some hist" "last_time hist = Some h"
      by fastforce
    then show ?thesis
      using c inl by (simp add: p3G map_trajectories_celestial Gpro option.map_ident G_def)
  qed
  have chk3: "g \<in> unsynchronized_vessels p3 \<longleftrightarrow> v_history v3 = None"
    if "map_of (vessels p3) g = Some v3" for g v3
  proof -
    from that same_keys_map_of [of "vessels p3" "vessels p" g v3]
    obtain v where v: "map_of (vessels p) g = Some v" by (auto simp: p3G)
    from v3 [OF v] that chk [OF v] show ?thesis by (auto simp: p3G)
  qed
  text \<open>After the synchronization, if any, every vessel has a history that ends at \<open>h1\<close>.\<close>
  have sync: "unsynchronized_vessels p4 = {} \<and> dirty_vessels p4 = {} \<and>
      kept_vessels p4 = kept_vessels p3 \<and> initializing p4 = initializing p3 \<and>
      planetarium_rotation p4 = planetarium_rotation p3 \<and> current_time p4 = current_time p3 \<and>
      sun p4 = sun p3 \<and> map fst (vessels p4) = map fst (vessels p3) \<and>
      map fst (celestials p4) = map fst (celestials p3) \<and>
      contains (bubble p4) = contains (bubble p3) \<and>
      next_state (bubble p4) = next_state (bubble p3) \<and> HistoryTime p4 = Some h1"
    using sy SynchronizeNewVesselsAndCleanDirtyVessels_effect(1-12) [where p' = p4 and \<Phi> = \<Phi>, OF _ h3 d3 chk3] h3
    by (auto simp: has_unsynchronized_vessels_def has_dirty_vessels_def split: if_splits)
  have c4: "\<exists>pr'. map_of (celestials p4) i = Some (c\<lparr>c_prolongation := pr'\<rparr>)"
    if "map_of (celestials p3) i = Some c" for i c
  proof (cases "has_unsynchronized_vessels p3 \<or> has_dirty_vessels p3 \<or> \<not> empty_bubble (bubble p3)")
    case True
    with sy SynchronizeNewVesselsAndCleanDirtyVessels_effect(13) [where p' = p4 and \<Phi> = \<Phi>, OF _ h3 d3 chk3 that]
    show ?thesis by simp
  next
    case False
    with sy that have "map_of (celestials p4) i = Some (c\<lparr>c_prolongation := c_prolongation c\<rparr>)"
      by simp
    then show ?thesis by blast
  qed
  have v4: "\<exists>d pr'. map_of (vessels p4) g =
              Some (v\<lparr>v_history := Some (case v_history v of None \<Rightarrow> [(h1, d)]
                                          | Some hist \<Rightarrow> hist @ [(h1, d)]),
                      v_prolongation := pr'\<rparr>)"
    if v: "map_of (vessels p) g = Some v" for g v
  proof -
    note v3 = v3 [OF v]
    have elig: "VesselHistory g \<in> set (history_trajectories p) \<longleftrightarrow>
        v_history v \<noteq> None \<and> \<not> contains (bubble p) g \<and> g \<notin> dirty_vessels p"
      using distinct_map_of_iff [OF d] v by (auto simp: is_synchronized_def is_dirty_def)
    show ?thesis
    proof (cases "contains (bubble p) g \<or> g \<in> unsynchronized_vessels p \<or> g \<in> dirty_vessels p")
      case True
      then have ne: "has_unsynchronized_vessels p3 \<or> has_dirty_vessels p3 \<or> \<not> empty_bubble (bubble p3)"
        using contains_not_empty [of "bubble p" g]
        by (auto simp: p3G has_unsynchronized_vessels_def has_dirty_vessels_def)
      from True chk [OF v] elig have "VesselHistory g \<notin> set (history_trajectories p)" by auto
      then have "G (VesselHistory g) = (\<lambda>tr. tr)" by (simp add: G_def fun_eq_iff)
      with v3 have v3': "map_of (vessels p3) g = Some v" by (simp add: option.map_ident)
      from True have "contains (bubble p3) g \<or> g \<in> unsynchronized_vessels p3 \<or> g \<in> dirty_vessels p3"
        by (simp add: p3G)
      with ne sy SynchronizeNewVesselsAndCleanDirtyVessels_effect(14) [where p' = p4 and \<Phi> = \<Phi>, OF _ h3 d3 chk3 v3']
      obtain dd pr' where "map_of (vessels p4) g =
                   Some (case v_history v of
                           None \<Rightarrow> v\<lparr>v_history := Some [(h1, dd)], v_prolongation := Some [(h1, dd)]\<rparr>
                         | Some hist \<Rightarrow> v\<lparr>v_history := Some (hist @ [(h1, dd)]),
                                            v_prolongation := pr'\<rparr>)"
        by auto
      then show ?thesis
        by (cases "v_history v") (auto intro: exI [of _ dd])
    next
      case False
      with chk [OF v] elig obtain hist where hist: "v_history v = Some hist"
        and inl: "VesselHistory g \<in> set (history_trajectories p)" by auto
      with v3 have v3': "map_of (vessels p3) g = Some (v\<lparr>v_history := Some (hist @ [(h1, D (VesselHistory g))])\<rparr>)"
        by (simp add: G_def)
      have "map_of (vessels p4) g = map_of (vessels p3) g"
      proof (cases "has_unsynchronized_vessels p3 \<or> has_dirty_vessels p3 \<or> \<not> empty_bubble (bubble p3)")
        case True
        with sy False SynchronizeNewVesselsAndCleanDirtyVessels_effect(14) [where p' = p4 and \<Phi> = \<Phi>, OF _ h3 d3 chk3 v3'] v3'
        show ?thesis by (simp add: p3G)
      next
        case False
        with sy show ?thesis by simp
      qed
      with v3' hist have "map_of (vessels p4) g =
              Some (v\<lparr>v_history := Some (case v_history v of None \<Rightarrow> [(h1, D (VesselHistory g))]
                                          | Some hist \<Rightarrow> hist @ [(h1, D (VesselHistory g))]),
                      v_prolongation := v_prolongation v\<rparr>)"
        by simp
      then show ?thesis by blast
    qed
  qed
  from sync have h4: "HistoryTime p4 = Some h1" by simp
  note rse = ResetProlongations_effect [OF rs h4]
  have cel: "\<exists>hist d f. c_history c = Some hist \<and> last_time hist = Some h \<and>
                  Fork h1 (hist @ [(h1, d)]) = Some f \<and>
                  map_of (celestials p') i =
                    Some (c\<lparr>c_history := Some (hist @ [(h1, d)]), c_prolongation := Some f\<rparr>)"
    if c: "map_of (celestials p) i = Some c" for i c
  proof -
    from c3 [OF c] obtain hist where hist: "c_history c = Some hist" "last_time hist = Some h"
      "map_of (celestials p3) i = Some (c\<lparr>c_history := Some (hist @ [(h1, D (CelestialHistory i))])\<rparr>)"
      by blast
    from c4 [OF hist(3)] obtain pr' where
      "map_of (celestials p4) i =
         Some (c\<lparr>c_history := Some (hist @ [(h1, D (CelestialHistory i))]), c_prolongation := pr'\<rparr>)"
      by auto
    from rse(13) [OF this] hist show ?thesis by auto
  qed
  have ves: "\<exists>hist' f d. map_of (vessels p') g =
                    Some (v\<lparr>v_history := Some hist', v_prolongation := Some f\<rparr>) \<and>
                  Fork h1 hist' = Some f \<and>
                  hist' = (case v_history v of None \<Rightarrow> [(h1, d)] | Some hist \<Rightarrow> hist @ [(h1, d)])"
    if v: "map_of (vessels p) g = Some v" for g v
  proof -
    from v4 [OF v] obtain dd pr' where
      "map_of (vessels p4) g =
              Some (v\<lparr>v_history := Some (case v_history v of None \<Rightarrow> [(h1, dd)]
                                          | Some hist \<Rightarrow> hist @ [(h1, dd)]),
                      v_prolongation := pr'\<rparr>)"
      by blast
    from rse(12) [OF this] show ?thesis by auto
  qed
  have dirty: "\<exists>pr pr1 d f. v_prolongation v = Some pr \<and> extended h1 pr pr1 \<and>
                  last_degrees_of_freedom pr1 = Some d \<and>
                  Fork h1 (hist @ [(h1, d)]) = Some f \<and>
                  map_of (vessels p') g =
                    Some (v\<lparr>v_history := Some (hist @ [(h1, d)]), v_prolongation := Some f\<rparr>)"
    if v: "map_of (vessels p) g = Some v" and hist: "v_history v = Some hist"
      and C: "\<not> contains (bubble p) g" "g \<in> dirty_vessels p" for g v hist
  proof -
    from C have "VesselHistory g \<notin> set (history_trajectories p)" by (simp add: is_dirty_def)
    then have "G (VesselHistory g) = (\<lambda>tr. tr)" by (simp add: G_def fun_eq_iff)
    with v3 [OF v] have v3': "map_of (vessels p3) g = Some v" by (simp add: option.map_ident)
    from C have ne: "has_dirty_vessels p3" by (auto simp: p3G has_dirty_vessels_def)
    with sy have syn: "SynchronizeNewVesselsAndCleanDirtyVessels \<Phi> p3 = Some p4" by simp
    from C have C3: "\<not> contains (bubble p3) g" "g \<in> dirty_vessels p3" by (simp_all add: p3G)
    from SynchronizeNewVesselsAndCleanDirtyVessels_effect(15) [OF syn h3 d3 chk3 v3' hist C3]
    obtain pr pr1 dd where pr: "v_prolongation v = Some pr" "extended h1 pr pr1"
      "last_degrees_of_freedom pr1 = Some dd"
      "map_of (vessels p4) g =
                Some (v\<lparr>v_prolongation := Some pr1, v_history := Some (hist @ [(h1, dd)])\<rparr>)"
      by blast
    from rse(12) [OF pr(4)] obtain f where
      "Fork h1 (hist @ [(h1, dd)]) = Some f"
      "map_of (vessels p') g =
         Some (v\<lparr>v_history := Some (hist @ [(h1, dd)]), v_prolongation := Some f\<rparr>)"
      by auto
    with pr show ?thesis by blast
  qed
  from b rse(1-11) sync cel ves dirty show ?thesis
    by (intro exI [of _ h1]) (simp add: p3G)
qed

subsection \<open>Concrete runs\<close>

lemmas eval_defs =
  AdvanceTime_def history_step_def CleanUpVessels_def CheckVesselInvariants_def HistoryTime_def
  Prepare_def EvolveHistories_def SynchronizeNewVesselsAndCleanDirtyVessels_def
  SynchronizeBubbleHistories_def ResetProlongations_def EvolveProlongationsAndBubble_def
  Integrate_def map_trajectories_def history_trajectories_def synchronization_trajectories_def
  prolongation_trajectories_def index_of_def for_each_entry_def
  is_initialized_def is_synchronized_def is_dirty_def has_dirty_vessels_def
  has_unsynchronized_vessels_def contains_def bubble_vessels_def empty_bubble_def
  from_centre_of_mass_def last_time_def last_degrees_of_freedom_def last_sample_def
  Append_def ResetProlongation_def c_ResetProlongation_def CreateHistoryAndForkProlongation_def
  PlanetariumRotation_def \<Delta>t_def erase_def modify_def emplace_def
  InsertOrKeepVessel_def SetVesselStateOffset_def find_vessel_by_guid_or_die_def
  new_Vessel_def CreateProlongation_def on_dof_def dof_plus_def kSunLookingGlass_def
  new_PhysicsBubble_def AddVesselToNextPhysicsBubble_def AddVesselToNext_def
  example_physics_def example_round_def example_started_def example_sun_def Let_def

lemma example_flight_reached:
  "Option.bind (map_option snd (InsertOrKeepVessel ''v'' 0 example_started))
     (SetVesselStateOffset example_physics ''v''
        (RelativeDegreesOfFreedom (R3 1 0 0) (R3 0 1 0))) =
   Some example_flight"
  by (simp add: eval_defs example_flight_def)

lemma AdvanceTime_example_5:
  "AdvanceTime example_physics 5 0 example_flight = Some example_flight_5"
  by (simp add: eval_defs example_flight_def example_flight_5_def)

lemma AdvanceTime_example_25:
  "AdvanceTime example_physics 25 0 example_flight = Some example_flight_25"
  by (simp add: eval_defs example_flight_def example_flight_25_def)

lemma example_bubble_reached:
  "AddVesselToNextPhysicsBubble ''v'' [(1, (1, DegreesOfFreedom (R3 0 0 0) (R3 0 0 0)))]
     example_flight = Some example_bubble"
  by (simp add: eval_defs example_flight_def example_bubble_def)

lemma before_prolongations_example_bubble:
  "before_prolongations example_physics 25 example_bubble = Some example_bubble_20"
  by (simp add: eval_defs before_prolongations_def example_bubble_def example_bubble_20_def)

lemma AdvanceTime_example_bubble:
  "AdvanceTime example_physics 25 0 example_bubble = Some example_bubble_25"
  by (simp add: eval_defs example_bubble_def example_bubble_25_def)

subsection \<open>The prolongations after an advance\<close>

text \<open>
  C4.  When \<^verbatim>\<open>AdvanceTime(t, rotation)\<close> returns, the current time is \<open>t\<close> and the
  prolongation of every vessel, in the bubble or not, ends at \<open>t\<close>, as does the
  prolongation of every celestial.  They are the work of its last step on the state
  \<open>p5\<close> that the earlier steps have produced.  The integrator runs from the instant
  \<open>t0\<close> at which the prolongations of the celestials, those of the vessels outside the
  bubble and the trajectory of the centre of mass of the bubble all end, to \<open>t\<close> exactly,
  and, unless \<open>t0\<close> is \<open>t\<close> already, each of these trajectories gains one sample, at
  \<open>t\<close>: the degrees of freedom that the integrator computes for it from the last
  points of them all.  The celestials, the bubble and the vessels outside the bubble
  are then as the integrator leaves them.  A vessel of the bubble gains the point at
  \<open>t\<close> that is the last point of the trajectory of the centre of mass, which is at
  \<open>t\<close>, plus the offset of the vessel from the centre of mass.
\<close>

theorem AdvanceTime_prolongations_end_at_target:
  assumes "AdvanceTime \<Phi> t rot p = Some p'"
  shows "current_time p' = t \<and>
    (\<forall>g v. map_of (vessels p') g = Some v \<longrightarrow>
           (\<exists>pr. v_prolongation v = Some pr \<and> last_time pr = Some t)) \<and>
    (\<forall>i c. map_of (celestials p') i = Some c \<longrightarrow>
           (\<exists>pr. c_prolongation c = Some pr \<and> last_time pr = Some t)) \<and>
    (\<exists>p5 pI t0 state.
       before_prolongations \<Phi> t p = Some p5 \<and>
       Integrate \<Phi> t \<Delta>t True (prolongation_trajectories p5) p5 = Some pI \<and>
       t0 \<le> t \<and>
       integrator_input p5 (prolongation_trajectories p5) = Some state \<and>
       (\<forall>s \<in> set (prolongation_trajectories p5).
          \<exists>tr. get_trajectory p5 s = Some tr \<and> last_time tr = Some t0 \<and>
            get_trajectory pI s =
              Some (if t = t0 then tr
                    else tr @ [(t, evolve \<Phi> \<Delta>t t0 t state
                                     (index_of s (prolongation_trajectories p5)))])) \<and>
       celestials p' = celestials pI \<and> bubble p' = bubble pI \<and>
       (\<forall>g. \<not> contains (bubble p5) g \<longrightarrow> map_of (vessels p') g = map_of (vessels pI) g) \<and>
       (\<forall>g v. map_of (vessels p5) g = Some v \<and> contains (bubble p5) g \<longrightarrow>
          (\<exists>pr s com off. v_prolongation v = Some pr \<and>
             current_state (bubble pI) = Some s \<and>
             last_sample (centre_of_mass_trajectory s) = Some (t, com) \<and>
             from_centre_of_mass (bubble pI) g = Some off \<and>
             map_of (vessels p') g =
               Some (v\<lparr>v_prolongation := Some (pr @ [(t, dof_plus (arithmetic \<Phi>) com off)])\<rparr>))))"
proof -
  from assms obtain p5 p6 where
    bp: "before_prolongations \<Phi> t p = Some p5" and
    ev: "EvolveProlongationsAndBubble \<Phi> t p5 = Some p6" and
    p': "p' = p6\<lparr>current_time := t, planetarium_rotation := rot\<rparr>"
    by (rule AdvanceTime_before_prolongations)
  note eff = EvolveProlongationsAndBubble_effect [OF ev]
  have 1: "current_time p' = t" by (simp add: p')
  have 2: "\<forall>g v. map_of (vessels p') g = Some v \<longrightarrow>
           (\<exists>pr. v_prolongation v = Some pr \<and> last_time pr = Some t)"
  proof (intro allI impI)
    fix g v assume "map_of (vessels p') g = Some v"
    then have v6: "map_of (vessels p6) g = Some v" by (simp add: p')
    with same_keys_map_of [OF eff(8)] obtain v5 where "map_of (vessels p5) g = Some v5" by blast
    from eff(13) [OF this] v6 show "\<exists>pr. v_prolongation v = Some pr \<and> last_time pr = Some t"
      by auto
  qed
  have 3: "\<forall>i c. map_of (celestials p') i = Some c \<longrightarrow>
           (\<exists>pr. c_prolongation c = Some pr \<and> last_time pr = Some t)"
  proof (intro allI impI)
    fix i c assume "map_of (celestials p') i = Some c"
    then have c6: "map_of (celestials p6) i = Some c" by (simp add: p')
    with same_keys_map_of [OF eff(9)] obtain c5 where "map_of (celestials p5) i = Some c5" by blast
    from eff(14) [OF this] c6 show "\<exists>pr. c_prolongation c = Some pr \<and> last_time pr = Some t"
      by auto
  qed
  have e: "celestials p' = celestials p6" "bubble p' = bubble p6" "vessels p' = vessels p6"
    by (simp_all add: p')
  have 4: "\<exists>p5 pI t0 state.
       before_prolongations \<Phi> t p = Some p5 \<and>
       Integrate \<Phi> t \<Delta>t True (prolongation_trajectories p5) p5 = Some pI \<and>
       t0 \<le> t \<and>
       integrator_input p5 (prolongation_trajectories p5) = Some state \<and>
       (\<forall>s \<in> set (prolongation_trajectories p5).
          \<exists>tr. get_trajectory p5 s = Some tr \<and> last_time tr = Some t0 \<and>
            get_trajectory pI s =
              Some (if t = t0 then tr
                    else tr @ [(t, evolve \<Phi> \<Delta>t t0 t state
                                     (index_of s (prolongation_trajectories p5)))])) \<and>
       celestials p' = celestials pI \<and> bubble p' = bubble pI \<and>
       (\<forall>g. \<not> contains (bubble p5) g \<longrightarrow> map_of (vessels p') g = map_of (vessels pI) g) \<and>
       (\<forall>g v. map_of (vessels p5) g = Some v \<and> contains (bubble p5) g \<longrightarrow>
          (\<exists>pr s com off. v_prolongation v = Some pr \<and>
             current_state (bubble pI) = Some s \<and>
             last_sample (centre_of_mass_trajectory s) = Some (t, com) \<and>
             from_centre_of_mass (bubble pI) g = Some off \<and>
             map_of (vessels p') g =
               Some (v\<lparr>v_prolongation := Some (pr @ [(t, dof_plus (arithmetic \<Phi>) com off)])\<rparr>)))"
    using EvolveProlongationsAndBubble_Integrate [OF ev] bp
    unfolding e
    by (elim exE conjE) (intro exI conjI)
  from 1 2 3 4 show ?thesis by (intro conjI)
qed

theorem AdvanceTime_prolongations_end_at_target_witness:
  "AdvanceTime example_physics 25 0 example_bubble = Some example_bubble_25 \<and>
   before_prolongations example_physics 25 example_bubble = Some example_bubble_20 \<and>
   contains (bubble example_bubble_20) ''v'' \<and>
   current_time example_bubble_25 = 25 \<and>
   (\<exists>v pr. map_of (vessels example_bubble_25) ''v'' = Some v \<and>
      v_prolongation v = Some pr \<and> last_time pr = Some 25) \<and>
   (\<exists>v pr s com off. map_of (vessels example_bubble_20) ''v'' = Some v \<and>
      v_prolongation v = Some pr \<and>
      current_state (bubble example_bubble_25) = Some s \<and>
      last_sample (centre_of_mass_trajectory s) = Some (25, com) \<and>
      from_centre_of_mass (bubble example_bubble_25) ''v'' = Some off \<and>
      map_of (vessels example_bubble_25) ''v'' =
        Some (v\<lparr>v_prolongation :=
                  Some (pr @ [(25, dof_plus (arithmetic example_physics) com off)])\<rparr>))"
proof -
  note t = AdvanceTime_prolongations_end_at_target [OF AdvanceTime_example_bubble]
  have c: "contains (bubble example_bubble_20) ''v''"
    by (simp add: example_bubble_20_def contains_def bubble_vessels_def)
  have v: "\<exists>v. map_of (vessels example_bubble_25) ''v'' = Some v"
    by (simp add: example_bubble_25_def)
  have v20: "\<exists>v. map_of (vessels example_bubble_20) ''v'' = Some v"
    by (simp add: example_bubble_20_def)
  from t have 1: "current_time example_bubble_25 = 25" by (rule conjunct1)
  from t v have 2: "\<exists>v pr. map_of (vessels example_bubble_25) ''v'' = Some v \<and>
      v_prolongation v = Some pr \<and> last_time pr = Some 25"
    by blast
  from t have "\<exists>p5 pI t0 state.
       before_prolongations example_physics 25 example_bubble = Some p5 \<and>
       Integrate example_physics 25 \<Delta>t True (prolongation_trajectories p5) p5 = Some pI \<and>
       t0 \<le> 25 \<and>
       integrator_input p5 (prolongation_trajectories p5) = Some state \<and>
       (\<forall>s \<in> set (prolongation_trajectories p5).
          \<exists>tr. get_trajectory p5 s = Some tr \<and> last_time tr = Some t0 \<and>
            get_trajectory pI s =
              Some (if 25 = t0 then tr
                    else tr @ [(25, evolve example_physics \<Delta>t t0 25 state
                                     (index_of s (prolongation_trajectories p5)))])) \<and>
       celestials example_bubble_25 = celestials pI \<and>
       bubble example_bubble_25 = bubble pI \<and>
       (\<forall>g. \<not> contains (bubble p5) g \<longrightarrow>
          map_of (vessels example_bubble_25) g = map_of (vessels pI) g) \<and>
       (\<forall>g v. map_of (vessels p5) g = Some v \<and> contains (bubble p5) g \<longrightarrow>
          (\<exists>pr s com off. v_prolongation v = Some pr \<and>
             current_state (bubble pI) = Some s \<and>
             last_sample (centre_of_mass_trajectory s) = Some (25, com) \<and>
             from_centre_of_mass (bubble pI) g = Some off \<and>
             map_of (vessels example_bubble_25) g =
               Some (v\<lparr>v_prolongation :=
                         Some (pr @ [(25, dof_plus (arithmetic example_physics) com off)])\<rparr>)))"
    by (rule conjunct2 [THEN conjunct2, THEN conjunct2])
  moreover have "\<exists>v pr s com off. map_of (vessels example_bubble_20) ''v'' = Some v \<and>
      v_prolongation v = Some pr \<and>
      current_state (bubble example_bubble_25) = Some s \<and>
      last_sample (centre_of_mass_trajectory s) = Some (25, com) \<and>
      from_centre_of_mass (bubble example_bubble_25) ''v'' = Some off \<and>
      map_of (vessels example_bubble_25) ''v'' =
        Some (v\<lparr>v_prolongation :=
                  Some (pr @ [(25, dof_plus (arithmetic example_physics) com off)])\<rparr>)"
    if p5: "before_prolongations example_physics 25 example_bubble = Some p5" and
    b: "bubble example_bubble_25 = bubble pI" and
    bv: "\<forall>g v. map_of (vessels p5) g = Some v \<and> contains (bubble p5) g \<longrightarrow>
          (\<exists>pr s com off. v_prolongation v = Some pr \<and>
             current_state (bubble pI) = Some s \<and>
             last_sample (centre_of_mass_trajectory s) = Some (25, com) \<and>
             from_centre_of_mass (bubble pI) g = Some off \<and>
             map_of (vessels example_bubble_25) g =
               Some (v\<lparr>v_prolongation :=
                         Some (pr @ [(25, dof_plus (arithmetic example_physics) com off)])\<rparr>))"
    for p5 pI
  proof -
    from p5 have e: "p5 = example_bubble_20"
      by (simp add: before_prolongations_example_bubble)
    from v20 obtain v0 where v0: "map_of (vessels example_bubble_20) ''v'' = Some v0" by blast
    with bv c have "\<exists>pr s com off. v_prolongation v0 = Some pr \<and>
             current_state (bubble example_bubble_25) = Some s \<and>
             last_sample (centre_of_mass_trajectory s) = Some (25, com) \<and>
             from_centre_of_mass (bubble example_bubble_25) ''v'' = Some off \<and>
             map_of (vessels example_bubble_25) ''v'' =
               Some (v0\<lparr>v_prolongation :=
                         Some (pr @ [(25, dof_plus (arithmetic example_physics) com off)])\<rparr>)"
      unfolding e b by blast
    with v0 show ?thesis by blast
  qed
  ultimately have 3: "\<exists>v pr s com off. map_of (vessels example_bubble_20) ''v'' = Some v \<and>
      v_prolongation v = Some pr \<and>
      current_state (bubble example_bubble_25) = Some s \<and>
      last_sample (centre_of_mass_trajectory s) = Some (25, com) \<and>
      from_centre_of_mass (bubble example_bubble_25) ''v'' = Some off \<and>
      map_of (vessels example_bubble_25) ''v'' =
        Some (v\<lparr>v_prolongation :=
                  Some (pr @ [(25, dof_plus (arithmetic example_physics) com off)])\<rparr>)"
    by (elim exE conjE) blast
  from AdvanceTime_example_bubble before_prolongations_example_bubble c 1 2 3
  show ?thesis by (intro conjI)
qed

subsection \<open>Inserting or keeping a vessel\<close>

text \<open>
  C10.  On a plugin whose initialization has ended, \<^verbatim>\<open>InsertOrKeepVessel\<close> with the
  index of a celestial that was inserted returns; the vessel with the GUID is then in
  \<^verbatim>\<open>kept_vessels_\<close> and its parent is the celestial at that index, also when the vessel
  was there before, with another parent: it is the old vessel with the new parent.  The
  value returned is true exactly when no vessel had the GUID, the case in which a new
  vessel is inserted.  No other vessel changes.
\<close>

theorem InsertOrKeepVessel_keeps_and_reparents:
  assumes "\<not> initializing p" and "map_of (celestials p) parent_index = Some parent"
  shows "\<exists>p'. InsertOrKeepVessel g parent_index p = Some (map_of (vessels p) g = None, p')
           \<and> g \<in> kept_vessels p'
           \<and> (\<exists>v. map_of (vessels p') g = Some v \<and> v_parent v = parent_index
                  \<and> (case map_of (vessels p) g of
                        None \<Rightarrow> v = new_Vessel parent_index
                      | Some v0 \<Rightarrow> v = v0\<lparr>v_parent := parent_index\<rparr>))
           \<and> (\<forall>g'. g' \<noteq> g \<longrightarrow> map_of (vessels p') g' = map_of (vessels p) g')"
  using assms
  by (auto simp: InsertOrKeepVessel_def emplace_def map_of_modify map_of_insert_key new_Vessel_def)

theorem InsertOrKeepVessel_keeps_and_reparents_witness:
  "\<not> initializing example_started
   \<and> map_of (celestials example_started) 0 = Some example_sun
   \<and> (\<exists>p'. InsertOrKeepVessel ''v'' 0 example_started = Some (True, p')
           \<and> ''v'' \<in> kept_vessels p'
           \<and> map_of (vessels p') ''v'' = Some (new_Vessel 0))"
proof -
  have a: "\<not> initializing example_started"
    by (simp add: example_started_def)
  have b: "map_of (celestials example_started) 0 = Some example_sun"
    by (simp add: example_started_def)
  have c: "map_of (vessels example_started) ''v'' = None"
    by (simp add: example_started_def)
  from InsertOrKeepVessel_keeps_and_reparents [OF a b, of "''v''"] a b c
  show ?thesis by auto
qed

subsection \<open>The state after the first steps of AdvanceTime\<close>

lemma map_of_filter_keys:
  "map_of (filter (\<lambda>kv. P (fst kv)) m) k = (if P k then map_of m k else None)"
  by (induction m) auto

lemma distinct_filter_keys:
  "distinct (map fst m) \<Longrightarrow> distinct (map fst (filter P m))"
  by (induction m) auto

lemma map_fst_filter_keys:
  "map fst (filter (\<lambda>kv. P (fst kv)) m) = filter P (map fst m)"
  by (induction m) auto

lemma Prepare_contains:
  assumes "Prepare \<Phi> rot ct nt vs b0 = Some b"
  shows "contains b g \<longleftrightarrow> g \<in> fst ` set (next_state b0)" and "next_state b = []"
proof -
  have *: "map fst (map (\<lambda>gp. (fst gp, F (fst gp))) xs) = map fst xs"
    for F :: "GUID \<Rightarrow> RelativeDegreesOfFreedom" and xs :: "(GUID \<times> IdAndOwnedPart list) list"
    by (induction xs) auto
  from assms have "bubble_vessels b = map fst (next_state b0)"
    unfolding Prepare_def bubble_vessels_def
    by (cases "next_state b0 = []") (auto simp: bind_eq_Some_conv * simp del: map_map)
  then show "contains b g \<longleftrightarrow> g \<in> fst ` set (next_state b0)"
    by (simp add: contains_def)
  from assms show "next_state b = []"
    by (auto simp: Prepare_def bind_eq_Some_conv split: if_splits)
qed

text \<open>The state in which the integrations start: after the cleanup and \<^verbatim>\<open>Prepare\<close>.\<close>

lemma AdvanceTime_prefix:
  assumes cu: "CleanUpVessels p = Some p1" and d: "distinct (map fst (vessels p))"
    and pr: "Prepare \<Phi> rot ct t vs (bubble p1) = Some b"
  defines "p2 \<equiv> p1\<lparr>bubble := b\<rparr>"
  shows "vessels p2 = filter (\<lambda>gv. fst gv \<in> kept_vessels p) (vessels p)"
    and "distinct (map fst (vessels p2))"
    and "celestials p2 = celestials p"
    and "sun p2 = sun p"
    and "HistoryTime p2 = HistoryTime p"
    and "initializing p2 = initializing p"
    and "planetarium_rotation p2 = planetarium_rotation p"
    and "current_time p2 = current_time p"
    and "kept_vessels p2 = kept_vessels p - fst ` set (vessels p)"
    and "unsynchronized_vessels p2 =
           unsynchronized_vessels p - (fst ` set (vessels p) - kept_vessels p)"
    and "dirty_vessels p2 = dirty_vessels p - (fst ` set (vessels p) - kept_vessels p)"
    and "\<forall>gv \<in> set (vessels p). CheckVesselInvariants p (fst gv) (snd gv)"
    and "\<And>g. map_of (vessels p2) g = (if g \<in> kept_vessels p then map_of (vessels p) g else None)"
    and "\<And>g v. map_of (vessels p2) g = Some v \<Longrightarrow>
           (g \<in> unsynchronized_vessels p2 \<longleftrightarrow> v_history v = None)"
    and "\<And>g. contains (bubble p2) g \<longleftrightarrow> g \<in> fst ` set (next_state (bubble p))"
    and "next_state (bubble p2) = []"
proof -
  note cl = CleanUpVessels_closed [OF d cu]
  note fr = CleanUpVessels_loop_frame [OF cu [unfolded CleanUpVessels_def]]
  show 1: "vessels p2 = filter (\<lambda>gv. fst gv \<in> kept_vessels p) (vessels p)"
    using cl by (simp add: p2_def)
  show "distinct (map fst (vessels p2))"
    unfolding 1 by (rule distinct_filter_keys [OF d])
  show "celestials p2 = celestials p" "sun p2 = sun p"
    "initializing p2 = initializing p"
    "planetarium_rotation p2 = planetarium_rotation p"
    "current_time p2 = current_time p"
    using fr by (simp_all add: p2_def)
  then show "HistoryTime p2 = HistoryTime p" by (simp add: HistoryTime_def)
  show "kept_vessels p2 = kept_vessels p - fst ` set (vessels p)"
    and u: "unsynchronized_vessels p2 =
           unsynchronized_vessels p - (fst ` set (vessels p) - kept_vessels p)"
    and "dirty_vessels p2 = dirty_vessels p - (fst ` set (vessels p) - kept_vessels p)"
    and chk: "\<forall>gv \<in> set (vessels p). CheckVesselInvariants p (fst gv) (snd gv)"
    using cl by (simp_all add: p2_def)
  show m: "map_of (vessels p2) g = (if g \<in> kept_vessels p then map_of (vessels p) g else None)" for g
    unfolding 1 by (rule map_of_filter_keys)
  show "g \<in> unsynchronized_vessels p2 \<longleftrightarrow> v_history v = None"
    if "map_of (vessels p2) g = Some v" for g v
  proof -
    from that m [of g] have k: "g \<in> kept_vessels p" and v: "map_of (vessels p) g = Some v"
      by (auto split: if_splits)
    from v have "(g, v) \<in> set (vessels p)" by (rule map_of_SomeD)
    with chk have "CheckVesselInvariants p g v" by auto
    then have "g \<in> unsynchronized_vessels p \<longleftrightarrow> v_history v = None"
      by (auto simp: CheckVesselInvariants_def is_synchronized_def split: if_splits)
    with k show ?thesis by (simp add: u)
  qed
  show "contains (bubble p2) g \<longleftrightarrow> g \<in> fst ` set (next_state (bubble p))" for g
    using Prepare_contains(1) [OF pr] fr by (simp add: p2_def)
  show "next_state (bubble p2) = []"
    using Prepare_contains(2) [OF pr] by (simp add: p2_def)
qed

lemma round_less_exact:
  assumes "r x < t" and "mono r" and "r t = t"
  shows "x < (t::real)"
proof (rule ccontr)
  assume "\<not> x < t"
  then have "t \<le> x" by simp
  with assms(2) have "r t \<le> r x" by (rule monoD)
  with assms(1,3) show False by simp
qed

lemma mono_example_round: "mono example_round"
  by (auto simp: mono_def example_round_def)


subsection \<open>What an advance does\<close>

lemma AdvanceTime_without_step:
  assumes ok: "AdvanceTime \<Phi> t rot p = Some p'" and d: "distinct (map fst (vessels p))"
    and h: "HistoryTime p = Some h" and ns: "\<not> round_double (arithmetic \<Phi>) (h + \<Delta>t) < t"
  shows "HistoryTime p' = Some h"
    and "unsynchronized_vessels p' =
           unsynchronized_vessels p - (fst ` set (vessels p) - kept_vessels p)"
    and "dirty_vessels p' = dirty_vessels p - (fst ` set (vessels p) - kept_vessels p)"
    and "\<And>i c. map_of (celestials p) i = Some c \<Longrightarrow>
           \<exists>pr pr'. c_prolongation c = Some pr \<and> extended t pr pr' \<and> last_time pr' = Some t \<and>
              map_of (celestials p') i = Some (c\<lparr>c_prolongation := Some pr'\<rparr>)"
    and "\<And>g v. map_of (vessels p) g = Some v \<Longrightarrow> g \<in> kept_vessels p \<Longrightarrow>
           \<exists>pr pr'. v_prolongation v = Some pr \<and> extended t pr pr' \<and> last_time pr' = Some t \<and>
              map_of (vessels p') g = Some (v\<lparr>v_prolongation := Some pr'\<rparr>)"
proof -
  from ok obtain p1 b ht p5 p6 where
    cu: "CleanUpVessels p = Some p1" and
    pr: "Prepare \<Phi> (PlanetariumRotation p1) (current_time p1) t (vessels p1) (bubble p1) = Some b" and
    ht: "HistoryTime (p1\<lparr>bubble := b\<rparr>) = Some ht" and
    p5: "(if round_double (arithmetic \<Phi>) (ht + \<Delta>t) < t then history_step \<Phi> t (p1\<lparr>bubble := b\<rparr>) else Some (p1\<lparr>bubble := b\<rparr>)) = Some p5" and
    ev: "EvolveProlongationsAndBubble \<Phi> t p5 = Some p6" and
    p': "p' = p6\<lparr>current_time := t, planetarium_rotation := rot\<rparr>"
    by (rule AdvanceTime_Some)
  note pre = AdvanceTime_prefix [OF cu d pr]
  from ht h pre(5) have "ht = h" by simp
  with p5 ns have p5': "p5 = p1\<lparr>bubble := b\<rparr>" by simp
  note eff = EvolveProlongationsAndBubble_effect [OF ev]
  show "HistoryTime p' = Some h"
    using eff(12) pre(5) h eff(7) by (simp add: p' p5' HistoryTime_def)
  show "unsynchronized_vessels p' =
           unsynchronized_vessels p - (fst ` set (vessels p) - kept_vessels p)"
    and "dirty_vessels p' = dirty_vessels p - (fst ` set (vessels p) - kept_vessels p)"
    using eff(1,2) pre(10,11) by (simp_all add: p' p5')
  show "\<exists>pr pr'. c_prolongation c = Some pr \<and> extended t pr pr' \<and> last_time pr' = Some t \<and>
              map_of (celestials p') i = Some (c\<lparr>c_prolongation := Some pr'\<rparr>)"
    if "map_of (celestials p) i = Some c" for i c
  proof -
    from that pre(3) have "map_of (celestials p5) i = Some c" by (simp add: p5')
    from eff(14) [OF this] show ?thesis by (auto simp: p')
  qed
  show "\<exists>pr pr'. v_prolongation v = Some pr \<and> extended t pr pr' \<and> last_time pr' = Some t \<and>
              map_of (vessels p') g = Some (v\<lparr>v_prolongation := Some pr'\<rparr>)"
    if "map_of (vessels p) g = Some v" "g \<in> kept_vessels p" for g v
  proof -
    from that pre(13) [of g] have "map_of (vessels p5) g = Some v" by (simp add: p5')
    from eff(13) [OF this] show ?thesis by (auto simp: p')
  qed
qed

lemma AdvanceTime_with_step:
  assumes ok: "AdvanceTime \<Phi> t rot p = Some p'" and d: "distinct (map fst (vessels p))"
    and h: "HistoryTime p = Some h" and rstep: "round_double (arithmetic \<Phi>) (h + \<Delta>t) < t"
    and mono: "mono (round_double (arithmetic \<Phi>))" and dbl: "round_double (arithmetic \<Phi>) t = t"
  shows "\<exists>h1. h + \<Delta>t \<le> h1 \<and> h1 \<le> t \<and> t < h1 + \<Delta>t \<and> current_time p \<le> h1 \<and>
           HistoryTime p' = Some h1 \<and>
           unsynchronized_vessels p' = {} \<and> dirty_vessels p' = {} \<and>
           (\<forall>i c. map_of (celestials p) i = Some c \<longrightarrow>
              (\<exists>hist d f pr'. c_history c = Some hist \<and> last_time hist = Some h \<and>
                  Fork h1 (hist @ [(h1, d)]) = Some f \<and> extended t f pr' \<and>
                  last_time pr' = Some t \<and>
                  map_of (celestials p') i =
                    Some (c\<lparr>c_history := Some (hist @ [(h1, d)]), c_prolongation := Some pr'\<rparr>))) \<and>
           (\<forall>g v. map_of (vessels p) g = Some v \<and> g \<in> kept_vessels p \<longrightarrow>
              (\<exists>hist' f d pr'. map_of (vessels p') g =
                    Some (v\<lparr>v_history := Some hist', v_prolongation := Some pr'\<rparr>) \<and>
                  Fork h1 hist' = Some f \<and> extended t f pr' \<and> last_time pr' = Some t \<and>
                  hist' = (case v_history v of None \<Rightarrow> [(h1, d)] | Some hist \<Rightarrow> hist @ [(h1, d)]))) \<and>
           (\<forall>g v hist. map_of (vessels p) g = Some v \<and> g \<in> kept_vessels p \<and>
                 v_history v = Some hist \<and>
                 g \<notin> fst ` set (next_state (bubble p)) \<and> g \<in> dirty_vessels p \<longrightarrow>
              (\<exists>pr pr1 d v'. v_prolongation v = Some pr \<and> extended h1 pr pr1 \<and>
                  last_degrees_of_freedom pr1 = Some d \<and>
                  map_of (vessels p') g = Some v' \<and>
                  v_history v' = Some (hist @ [(h1, d)])))"
proof -
  from ok obtain p1 b ht p5 p6 where
    cu: "CleanUpVessels p = Some p1" and
    pr: "Prepare \<Phi> (PlanetariumRotation p1) (current_time p1) t (vessels p1) (bubble p1) = Some b" and
    ht: "HistoryTime (p1\<lparr>bubble := b\<rparr>) = Some ht" and
    p5: "(if round_double (arithmetic \<Phi>) (ht + \<Delta>t) < t then history_step \<Phi> t (p1\<lparr>bubble := b\<rparr>) else Some (p1\<lparr>bubble := b\<rparr>)) = Some p5" and
    ev: "EvolveProlongationsAndBubble \<Phi> t p5 = Some p6" and
    p': "p' = p6\<lparr>current_time := t, planetarium_rotation := rot\<rparr>"
    by (rule AdvanceTime_Some)
  define p2 where "p2 = p1\<lparr>bubble := b\<rparr>"
  note pre = AdvanceTime_prefix [OF cu d pr, folded p2_def]
  from ht h pre(5) have "ht = h" by (simp add: p2_def)
  with p5 rstep have hs: "history_step \<Phi> t p2 = Some p5" by (simp add: p2_def)
  from rstep mono dbl have step: "h + \<Delta>t < t" by (rule round_less_exact)
  have h2: "HistoryTime p2 = Some h" using pre(5) h by simp
  from history_step_effect [OF hs h2 step pre(2) pre(14)] obtain h1 where
    b: "h + \<Delta>t \<le> h1" "h1 \<le> t" "t < h1 + \<Delta>t" "current_time p2 \<le> h1" and
    h5: "HistoryTime p5 = Some h1" and
    sets: "unsynchronized_vessels p5 = {}" "dirty_vessels p5 = {}" and
    cel: "\<forall>i c. map_of (celestials p2) i = Some c \<longrightarrow>
              (\<exists>hist d f. c_history c = Some hist \<and> last_time hist = Some h \<and>
                  Fork h1 (hist @ [(h1, d)]) = Some f \<and>
                  map_of (celestials p5) i =
                    Some (c\<lparr>c_history := Some (hist @ [(h1, d)]), c_prolongation := Some f\<rparr>))" and
    ves: "\<forall>g v. map_of (vessels p2) g = Some v \<longrightarrow>
              (\<exists>hist' f d. map_of (vessels p5) g =
                    Some (v\<lparr>v_history := Some hist', v_prolongation := Some f\<rparr>) \<and>
                  Fork h1 hist' = Some f \<and>
                  hist' = (case v_history v of None \<Rightarrow> [(h1, d)] | Some hist \<Rightarrow> hist @ [(h1, d)]))" and
    dirty: "\<forall>g v hist. map_of (vessels p2) g = Some v \<and> v_history v = Some hist \<and>
                 \<not> contains (bubble p2) g \<and> g \<in> dirty_vessels p2 \<longrightarrow>
              (\<exists>pr pr1 d f. v_prolongation v = Some pr \<and> extended h1 pr pr1 \<and>
                  last_degrees_of_freedom pr1 = Some d \<and>
                  Fork h1 (hist @ [(h1, d)]) = Some f \<and>
                  map_of (vessels p5) g =
                    Some (v\<lparr>v_history := Some (hist @ [(h1, d)]), v_prolongation := Some f\<rparr>))"
    by blast
  note eff = EvolveProlongationsAndBubble_effect [OF ev]
  have H: "HistoryTime p' = Some h1"
    using eff(12) h5 eff(7) by (simp add: p' HistoryTime_def)
  have S: "unsynchronized_vessels p' = {}" "dirty_vessels p' = {}"
    using eff(1,2) sets by (simp_all add: p')
  have C: "\<exists>hist d f pr'. c_history c = Some hist \<and> last_time hist = Some h \<and>
                  Fork h1 (hist @ [(h1, d)]) = Some f \<and> extended t f pr' \<and>
                  last_time pr' = Some t \<and>
                  map_of (celestials p') i =
                    Some (c\<lparr>c_history := Some (hist @ [(h1, d)]), c_prolongation := Some pr'\<rparr>)"
    if "map_of (celestials p) i = Some c" for i c
  proof -
    from that pre(3) cel obtain hist dd f where
      c: "c_history c = Some hist" "last_time hist = Some h" "Fork h1 (hist @ [(h1, dd)]) = Some f"
      "map_of (celestials p5) i =
                    Some (c\<lparr>c_history := Some (hist @ [(h1, dd)]), c_prolongation := Some f\<rparr>)"
      by fastforce
    from eff(14) [OF c(4)] obtain pr' where
      "extended t f pr'" "last_time pr' = Some t"
      "map_of (celestials p') i =
         Some (c\<lparr>c_history := Some (hist @ [(h1, dd)]), c_prolongation := Some pr'\<rparr>)"
      by (auto simp: p')
    with c show ?thesis by blast
  qed
  have V: "\<exists>hist' f d pr'. map_of (vessels p') g =
                    Some (v\<lparr>v_history := Some hist', v_prolongation := Some pr'\<rparr>) \<and>
                  Fork h1 hist' = Some f \<and> extended t f pr' \<and> last_time pr' = Some t \<and>
                  hist' = (case v_history v of None \<Rightarrow> [(h1, d)] | Some hist \<Rightarrow> hist @ [(h1, d)])"
    if "map_of (vessels p) g = Some v \<and> g \<in> kept_vessels p" for g v
  proof -
    from that pre(13) [of g] have "map_of (vessels p2) g = Some v" by simp
    with ves obtain hist' f dd where
      v: "map_of (vessels p5) g = Some (v\<lparr>v_history := Some hist', v_prolongation := Some f\<rparr>)"
      "Fork h1 hist' = Some f"
      "hist' = (case v_history v of None \<Rightarrow> [(h1, dd)] | Some hist \<Rightarrow> hist @ [(h1, dd)])"
      by blast
    from eff(13) [OF v(1)] obtain pr' where
      "extended t f pr'" "last_time pr' = Some t"
      "map_of (vessels p') g = Some (v\<lparr>v_history := Some hist', v_prolongation := Some pr'\<rparr>)"
      by (auto simp: p')
    with v show ?thesis by blast
  qed
  have D: "\<exists>pr pr1 d v'. v_prolongation v = Some pr \<and> extended h1 pr pr1 \<and>
                  last_degrees_of_freedom pr1 = Some d \<and>
                  map_of (vessels p') g = Some v' \<and>
                  v_history v' = Some (hist @ [(h1, d)])"
    if "map_of (vessels p) g = Some v \<and> g \<in> kept_vessels p \<and>
                 v_history v = Some hist \<and>
                 g \<notin> fst ` set (next_state (bubble p)) \<and> g \<in> dirty_vessels p" for g v hist
  proof -
    note A = that
    from A pre(13) [of g] have v2: "map_of (vessels p2) g = Some v" by simp
    from A have "\<not> contains (bubble p2) g" by (simp add: pre(15))
    moreover from A v2 have "g \<in> dirty_vessels p2"
      by (simp add: pre(11))
    moreover from A have "v_history v = Some hist" by simp
    ultimately obtain pr pr1 dd f where
      x: "v_prolongation v = Some pr" "extended h1 pr pr1" "last_degrees_of_freedom pr1 = Some dd"
      "map_of (vessels p5) g =
         Some (v\<lparr>v_history := Some (hist @ [(h1, dd)]), v_prolongation := Some f\<rparr>)"
      using dirty v2 by blast
    from eff(13) [OF x(4)] obtain v' where
      "map_of (vessels p') g = Some v'" "v_history v' = Some (hist @ [(h1, dd)])"
      by (auto simp: p')
    with x show ?thesis by blast
  qed
  from b pre(8) H S C V D show ?thesis
    by (intro exI [of _ h1]) simp
qed

lemma example_dirty_reached:
  "Option.bind (Option.bind (Option.bind
     (map_option snd (InsertOrKeepVessel ''v'' 0 example_bubble_25))
     (AddVesselToNextPhysicsBubble ''v'' [(1, (1, DegreesOfFreedom (R3 0 0 0) (R3 0 0 0)))]))
     (AdvanceTime example_physics 27 0))
     (\<lambda>p. map_option snd (InsertOrKeepVessel ''v'' 0 p)) = Some example_dirty"
  by (simp add: eval_defs example_bubble_25_def example_dirty_def)


lemma AdvanceTime_example_10:
  "AdvanceTime example_physics 10 0 example_flight = Some example_flight_10"
  by (simp add: eval_defs example_flight_def example_flight_10_def)

lemma AdvanceTime_HistoryTime:
  assumes ok: "AdvanceTime \<Phi> t rot p = Some p'"
  shows "\<exists>h. HistoryTime p = Some h"
proof -
  from ok obtain p1 b ht where
    cu: "CleanUpVessels p = Some p1" and
    ht: "HistoryTime (p1\<lparr>bubble := b\<rparr>) = Some ht"
    by (rule AdvanceTime_Some)
  from CleanUpVessels_loop_frame [OF cu [unfolded CleanUpVessels_def]] ht
  show ?thesis by (simp add: HistoryTime_def)
qed



lemma AdvanceTime_frame:
  assumes ok: "AdvanceTime \<Phi> t rot p = Some p'" and d: "distinct (map fst (vessels p))"
    and mono: "mono (round_double (arithmetic \<Phi>))" and dbl: "round_double (arithmetic \<Phi>) t = t"
  shows "map fst (vessels p') = map fst (filter (\<lambda>gv. fst gv \<in> kept_vessels p) (vessels p))"
    and "map fst (celestials p') = map fst (celestials p)"
    and "kept_vessels p' = kept_vessels p - fst ` set (vessels p)"
    and "sun p' = sun p"
    and "initializing p' = initializing p"
    and "current_time p' = t"
    and "planetarium_rotation p' = rot"
    and "\<not> initializing p"
    and "current_time p < t"
    and "next_state (bubble p') = []"
proof -
  from ok obtain p1 b ht p5 p6 where
    ni: "\<not> initializing p" "current_time p < t" and
    cu: "CleanUpVessels p = Some p1" and
    pr: "Prepare \<Phi> (PlanetariumRotation p1) (current_time p1) t (vessels p1) (bubble p1) = Some b" and
    ht: "HistoryTime (p1\<lparr>bubble := b\<rparr>) = Some ht" and
    p5: "(if round_double (arithmetic \<Phi>) (ht + \<Delta>t) < t then history_step \<Phi> t (p1\<lparr>bubble := b\<rparr>) else Some (p1\<lparr>bubble := b\<rparr>)) = Some p5" and
    ev: "EvolveProlongationsAndBubble \<Phi> t p5 = Some p6" and
    p': "p' = p6\<lparr>current_time := t, planetarium_rotation := rot\<rparr>"
    by (rule AdvanceTime_Some)
  define p2 where "p2 = p1\<lparr>bubble := b\<rparr>"
  note pre = AdvanceTime_prefix [OF cu d pr, folded p2_def]
  note eff = EvolveProlongationsAndBubble_effect [OF ev]
  have fr: "kept_vessels p5 = kept_vessels p2 \<and> initializing p5 = initializing p2 \<and>
            sun p5 = sun p2 \<and> map fst (vessels p5) = map fst (vessels p2) \<and>
            map fst (celestials p5) = map fst (celestials p2) \<and>
            next_state (bubble p5) = next_state (bubble p2)"
  proof (cases "round_double (arithmetic \<Phi>) (ht + \<Delta>t) < t")
    case True
    with p5 have hs: "history_step \<Phi> t p2 = Some p5" by (simp add: p2_def)
    from ht have h2: "HistoryTime p2 = Some ht" by (simp add: p2_def)
    from True mono dbl have st: "ht + \<Delta>t < t" by (rule round_less_exact)
    from history_step_effect [OF hs h2 st pre(2) pre(14)] show ?thesis
      by blast
  next
    case False
    with p5 show ?thesis by (simp add: p2_def)
  qed
  show "map fst (vessels p') = map fst (filter (\<lambda>gv. fst gv \<in> kept_vessels p) (vessels p))"
    using eff(8) fr pre(1) by (simp add: p')
  show "map fst (celestials p') = map fst (celestials p)"
    using eff(9) fr pre(3) by (simp add: p')
  show "kept_vessels p' = kept_vessels p - fst ` set (vessels p)"
    using eff(3) fr pre(9) by (simp add: p')
  show "sun p' = sun p" using eff(7) fr pre(4) by (simp add: p')
  show "initializing p' = initializing p" using eff(4) fr pre(6) by (simp add: p')
  show "current_time p' = t" "planetarium_rotation p' = rot" by (simp_all add: p')
  show "\<not> initializing p" "current_time p < t" by (rule ni)+
  show "next_state (bubble p') = []" using eff(11) fr pre(16) by (simp add: p')
qed


subsection \<open>After a history step\<close>




lemma example_fleet_reached:
  "Option.bind (map_option snd (InsertOrKeepVessel ''w'' 0 example_flight_5))
     (SetVesselStateOffset example_physics ''w'' (RelativeDegreesOfFreedom (R3 2 0 0) (R3 0 1 0))) =
   Some example_fleet"
  by (simp add: eval_defs example_flight_5_def example_fleet_def insert_commute)

lemma AdvanceTime_example_fleet:
  "AdvanceTime example_physics 7 0 example_fleet = Some example_fleet_7"
  by (simp add: eval_defs example_fleet_def example_fleet_7_def)



lemma mono_example_physics: "mono (round_double (arithmetic example_physics))"
  by (simp add: example_physics_def mono_example_round)

lemma example_round_small [simp]: "x \<le> 9007199254740992 \<Longrightarrow> example_round x = x"
  by (simp add: example_round_def)

lemma round_example_physics:
  "x \<le> 9007199254740992 \<Longrightarrow> round_double (arithmetic example_physics) x = x"
  by (simp add: example_physics_def)

subsection \<open>When the histories advance\<close>

text \<open>
  C1, as the code has it.  \<^verbatim>\<open>AdvanceTime\<close> compares with \<^verbatim>\<open><\<close>, and it compares the sum
  that the doubles give: the histories advance exactly when the rounded sum of
  \<^verbatim>\<open>HistoryTime()\<close> and \<open>\<Delta>t\<close> is strictly before \<open>t\<close>.  Then the new history time \<open>h1\<close> is
  at least one step after the old one, at most \<open>t\<close> and less than a step before \<open>t\<close>;
  the history of every celestial has gained a sample at \<open>h1\<close>; no vessel is left
  unsynchronized or dirty; and the prolongation of every celestial is the fork of its
  history at \<open>h1\<close>, integrated to \<open>t\<close>.  Otherwise the history time and the histories
  are as they were, the two sets have lost only the vessels that the cleanup removed,
  and the prolongations have only been integrated to \<open>t\<close>.  The rounding is monotone,
  as rounding to nearest is, and \<open>t\<close> is a double.
\<close>

theorem AdvanceTime_history_advance_iff_strict:
  assumes ok: "AdvanceTime \<Phi> t rot p = Some p'" and d: "distinct (map fst (vessels p))"
    and mono: "mono (round_double (arithmetic \<Phi>))" and dbl: "round_double (arithmetic \<Phi>) t = t"
  shows "\<exists>h. HistoryTime p = Some h \<and>
    (if round_double (arithmetic \<Phi>) (h + \<Delta>t) < t
     then \<exists>h1. HistoryTime p' = Some h1 \<and> h + \<Delta>t \<le> h1 \<and> h1 \<le> t \<and> t < h1 + \<Delta>t \<and>
            unsynchronized_vessels p' = {} \<and> dirty_vessels p' = {} \<and>
            (\<forall>i c. map_of (celestials p) i = Some c \<longrightarrow>
               (\<exists>hist d f pr'. c_history c = Some hist \<and> last_time hist = Some h \<and>
                  Fork h1 (hist @ [(h1, d)]) = Some f \<and> extended t f pr' \<and>
                  last_time pr' = Some t \<and>
                  map_of (celestials p') i =
                    Some (c\<lparr>c_history := Some (hist @ [(h1, d)]), c_prolongation := Some pr'\<rparr>)))
     else HistoryTime p' = Some h \<and>
            unsynchronized_vessels p' =
              unsynchronized_vessels p - (fst ` set (vessels p) - kept_vessels p) \<and>
            dirty_vessels p' = dirty_vessels p - (fst ` set (vessels p) - kept_vessels p) \<and>
            (\<forall>i c. map_of (celestials p) i = Some c \<longrightarrow>
               (\<exists>pr pr'. c_prolongation c = Some pr \<and> extended t pr pr' \<and>
                  last_time pr' = Some t \<and>
                  map_of (celestials p') i = Some (c\<lparr>c_prolongation := Some pr'\<rparr>))))"
proof -
  from AdvanceTime_HistoryTime [OF ok] obtain h where h: "HistoryTime p = Some h" by blast
  show ?thesis
  proof (cases "round_double (arithmetic \<Phi>) (h + \<Delta>t) < t")
    case True
    from AdvanceTime_with_step [OF ok d h True mono dbl] obtain h1 where
      "h + \<Delta>t \<le> h1" "h1 \<le> t" "t < h1 + \<Delta>t" "HistoryTime p' = Some h1"
      "unsynchronized_vessels p' = {}" "dirty_vessels p' = {}"
      "\<forall>i c. map_of (celestials p) i = Some c \<longrightarrow>
               (\<exists>hist d f pr'. c_history c = Some hist \<and> last_time hist = Some h \<and>
                  Fork h1 (hist @ [(h1, d)]) = Some f \<and> extended t f pr' \<and>
                  last_time pr' = Some t \<and>
                  map_of (celestials p') i =
                    Some (c\<lparr>c_history := Some (hist @ [(h1, d)]), c_prolongation := Some pr'\<rparr>))"
      by (elim exE conjE) (rule that)
    then have "\<exists>h1. HistoryTime p' = Some h1 \<and> h + \<Delta>t \<le> h1 \<and> h1 \<le> t \<and> t < h1 + \<Delta>t \<and>
            unsynchronized_vessels p' = {} \<and> dirty_vessels p' = {} \<and>
            (\<forall>i c. map_of (celestials p) i = Some c \<longrightarrow>
               (\<exists>hist d f pr'. c_history c = Some hist \<and> last_time hist = Some h \<and>
                  Fork h1 (hist @ [(h1, d)]) = Some f \<and> extended t f pr' \<and>
                  last_time pr' = Some t \<and>
                  map_of (celestials p') i =
                    Some (c\<lparr>c_history := Some (hist @ [(h1, d)]), c_prolongation := Some pr'\<rparr>)))"
      by (intro exI [of _ h1] conjI)
    then have "if round_double (arithmetic \<Phi>) (h + \<Delta>t) < t
     then \<exists>h1. HistoryTime p' = Some h1 \<and> h + \<Delta>t \<le> h1 \<and> h1 \<le> t \<and> t < h1 + \<Delta>t \<and>
            unsynchronized_vessels p' = {} \<and> dirty_vessels p' = {} \<and>
            (\<forall>i c. map_of (celestials p) i = Some c \<longrightarrow>
               (\<exists>hist d f pr'. c_history c = Some hist \<and> last_time hist = Some h \<and>
                  Fork h1 (hist @ [(h1, d)]) = Some f \<and> extended t f pr' \<and>
                  last_time pr' = Some t \<and>
                  map_of (celestials p') i =
                    Some (c\<lparr>c_history := Some (hist @ [(h1, d)]), c_prolongation := Some pr'\<rparr>)))
     else HistoryTime p' = Some h \<and>
            unsynchronized_vessels p' =
              unsynchronized_vessels p - (fst ` set (vessels p) - kept_vessels p) \<and>
            dirty_vessels p' = dirty_vessels p - (fst ` set (vessels p) - kept_vessels p) \<and>
            (\<forall>i c. map_of (celestials p) i = Some c \<longrightarrow>
               (\<exists>pr pr'. c_prolongation c = Some pr \<and> extended t pr pr' \<and>
                  last_time pr' = Some t \<and>
                  map_of (celestials p') i = Some (c\<lparr>c_prolongation := Some pr'\<rparr>)))"
      by (subst if_P [OF True])
    with h show ?thesis by (intro exI [of _ h] conjI)
  next
    case False
    note ws = AdvanceTime_without_step [OF ok d h False]
    have "HistoryTime p' = Some h \<and>
            unsynchronized_vessels p' =
              unsynchronized_vessels p - (fst ` set (vessels p) - kept_vessels p) \<and>
            dirty_vessels p' = dirty_vessels p - (fst ` set (vessels p) - kept_vessels p) \<and>
            (\<forall>i c. map_of (celestials p) i = Some c \<longrightarrow>
               (\<exists>pr pr'. c_prolongation c = Some pr \<and> extended t pr pr' \<and>
                  last_time pr' = Some t \<and>
                  map_of (celestials p') i = Some (c\<lparr>c_prolongation := Some pr'\<rparr>)))"
      using ws(1) ws(2) ws(3) ws(4) by (intro conjI allI impI)
    then have "if round_double (arithmetic \<Phi>) (h + \<Delta>t) < t
     then \<exists>h1. HistoryTime p' = Some h1 \<and> h + \<Delta>t \<le> h1 \<and> h1 \<le> t \<and> t < h1 + \<Delta>t \<and>
            unsynchronized_vessels p' = {} \<and> dirty_vessels p' = {} \<and>
            (\<forall>i c. map_of (celestials p) i = Some c \<longrightarrow>
               (\<exists>hist d f pr'. c_history c = Some hist \<and> last_time hist = Some h \<and>
                  Fork h1 (hist @ [(h1, d)]) = Some f \<and> extended t f pr' \<and>
                  last_time pr' = Some t \<and>
                  map_of (celestials p') i =
                    Some (c\<lparr>c_history := Some (hist @ [(h1, d)]), c_prolongation := Some pr'\<rparr>)))
     else HistoryTime p' = Some h \<and>
            unsynchronized_vessels p' =
              unsynchronized_vessels p - (fst ` set (vessels p) - kept_vessels p) \<and>
            dirty_vessels p' = dirty_vessels p - (fst ` set (vessels p) - kept_vessels p) \<and>
            (\<forall>i c. map_of (celestials p) i = Some c \<longrightarrow>
               (\<exists>pr pr'. c_prolongation c = Some pr \<and> extended t pr pr' \<and>
                  last_time pr' = Some t \<and>
                  map_of (celestials p') i = Some (c\<lparr>c_prolongation := Some pr'\<rparr>)))"
      by (subst if_not_P [OF False])
    with h show ?thesis by (intro exI [of _ h] conjI)
  qed
qed

theorem AdvanceTime_history_advance_iff_strict_witness:
  "AdvanceTime example_physics 25 0 example_flight = Some example_flight_25 \<and>
   distinct (map fst (vessels example_flight)) \<and>
   mono (round_double (arithmetic example_physics)) \<and>
   round_double (arithmetic example_physics) 25 = 25 \<and>
   HistoryTime example_flight = Some 0 \<and>
   round_double (arithmetic example_physics) (0 + \<Delta>t) < 25 \<and>
   HistoryTime example_flight_25 = Some 20 \<and>
   unsynchronized_vessels example_flight_25 = {}"
proof -
  have d: "distinct (map fst (vessels example_flight))"
    by (simp add: example_flight_def)
  have r: "round_double (arithmetic example_physics) 25 = 25"
    by (simp add: round_example_physics)
  have h: "HistoryTime example_flight = Some 0"
    by (simp add: example_flight_def example_sun_def HistoryTime_def last_time_def last_sample_def)
  have st: "round_double (arithmetic example_physics) (0 + \<Delta>t) < 25"
    by (simp add: round_example_physics \<Delta>t_def)
  have h': "HistoryTime example_flight_25 = Some 20"
    by (simp add: example_flight_25_def HistoryTime_def last_time_def last_sample_def)
  from AdvanceTime_history_advance_iff_strict [OF AdvanceTime_example_25 d mono_example_physics r]
    h st
  have "unsynchronized_vessels example_flight_25 = {}"
    by auto
  with AdvanceTime_example_25 d mono_example_physics r h st h' show ?thesis by (intro conjI)
qed

text \<open>
  C1 as stated fails at equality: from the history time 0, \<^verbatim>\<open>AdvanceTime\<close> to \<open>t = 10\<close>,
  where \<open>0 + \<Delta>t \<le> t\<close>, leaves the history time at 0 and the new vessel unsynchronized.
\<close>

theorem AdvanceTime_no_advance_at_equality:
  "HistoryTime example_flight = Some 0 \<and> (0::real) + \<Delta>t \<le> 10 \<and>
   current_time example_flight < 10 \<and> \<not> initializing example_flight \<and>
   AdvanceTime example_physics 10 0 example_flight = Some example_flight_10 \<and>
   HistoryTime example_flight_10 = Some 0 \<and>
   unsynchronized_vessels example_flight_10 = {''v''}"
  using AdvanceTime_example_10
  by (simp add: example_flight_def example_flight_10_def example_sun_def HistoryTime_def
      last_time_def last_sample_def \<Delta>t_def)


subsection \<open>The preconditions of AdvanceTime\<close>




subsection \<open>The cleanup\<close>

text \<open>
  C8.  An \<^verbatim>\<open>AdvanceTime\<close> that returns has first run \<^verbatim>\<open>CleanUpVessels\<close>, which returned
  a plugin \<open>p1\<close>: its vessels are those of \<open>p\<close> that were kept, each as it was, in the
  same order; no vessel is marked as kept any more; the unsynchronized and the dirty
  vessels are those of \<open>p\<close> without the vessels removed; nothing else has changed.  The
  vessels of the plugin that \<^verbatim>\<open>AdvanceTime\<close> returns are those of \<open>p1\<close>.  The set
  \<^verbatim>\<open>kept_vessels_\<close> holds pointers to vessels that the plugin owns.
\<close>

theorem AdvanceTime_cleans_up_vessels:
  assumes ok: "AdvanceTime \<Phi> t rot p = Some p'" and d: "distinct (map fst (vessels p))"
    and sub: "kept_vessels p \<subseteq> fst ` set (vessels p)"
    and mono: "mono (round_double (arithmetic \<Phi>))" and dbl: "round_double (arithmetic \<Phi>) t = t"
  shows "\<exists>p1. CleanUpVessels p = Some p1 \<and>
     vessels p1 = filter (\<lambda>gv. fst gv \<in> kept_vessels p) (vessels p) \<and>
     kept_vessels p1 = {} \<and>
     unsynchronized_vessels p1 =
       unsynchronized_vessels p - (fst ` set (vessels p) - kept_vessels p) \<and>
     dirty_vessels p1 = dirty_vessels p - (fst ` set (vessels p) - kept_vessels p) \<and>
     celestials p1 = celestials p \<and> bubble p1 = bubble p \<and>
     initializing p1 = initializing p \<and> planetarium_rotation p1 = planetarium_rotation p \<and>
     current_time p1 = current_time p \<and> sun p1 = sun p \<and>
     (\<forall>g. map_of (vessels p1) g =
          (if g \<in> kept_vessels p then map_of (vessels p) g else None)) \<and>
     map fst (vessels p') = map fst (vessels p1) \<and> kept_vessels p' = {}"
proof -
  from ok obtain p1 where cu: "CleanUpVessels p = Some p1" by (rule AdvanceTime_Some)
  note cl = CleanUpVessels_closed [OF d cu]
  note fr = CleanUpVessels_loop_frame [OF cu [unfolded CleanUpVessels_def]]
  note af = AdvanceTime_frame [OF ok d mono dbl]
  have k: "kept_vessels p1 = {}" using cl(2) sub by auto
  have m: "\<forall>g. map_of (vessels p1) g =
          (if g \<in> kept_vessels p then map_of (vessels p) g else None)"
    unfolding cl(1) by (intro allI) (rule map_of_filter_keys)
  have v: "map fst (vessels p') = map fst (vessels p1)" using af(1) cl(1) by simp
  have k': "kept_vessels p' = {}" using af(3) sub by auto
  from fr have f: "celestials p1 = celestials p" "bubble p1 = bubble p"
    "initializing p1 = initializing p" "planetarium_rotation p1 = planetarium_rotation p"
    "current_time p1 = current_time p" "sun p1 = sun p"
    by simp_all
  show ?thesis
    by (intro exI [of _ p1] conjI cu cl(1) k cl(3) cl(4) f m v k')
qed

theorem AdvanceTime_cleans_up_vessels_witness:
  "AdvanceTime example_physics 7 0 example_fleet = Some example_fleet_7 \<and>
   distinct (map fst (vessels example_fleet)) \<and>
   kept_vessels example_fleet = {''w''} \<and>
   map fst (vessels example_fleet) = [''v'', ''w''] \<and>
   mono (round_double (arithmetic example_physics)) \<and>
   round_double (arithmetic example_physics) 7 = 7 \<and>
   map fst (vessels example_fleet_7) = [''w''] \<and>
   kept_vessels example_fleet_7 = {} \<and>
   (\<exists>p1. CleanUpVessels example_fleet = Some p1 \<and> map fst (vessels p1) = [''w''] \<and>
      unsynchronized_vessels p1 = {''w''})"
proof -
  have d: "distinct (map fst (vessels example_fleet))" by (simp add: example_fleet_def)
  have s: "kept_vessels example_fleet \<subseteq> fst ` set (vessels example_fleet)"
    by (simp add: example_fleet_def)
  have r: "round_double (arithmetic example_physics) 7 = 7"
    by (simp add: round_example_physics)
  have e: "kept_vessels example_fleet = {''w''}"
    "map fst (vessels example_fleet) = [''v'', ''w'']"
    "map fst (vessels example_fleet_7) = [''w'']"
    by (simp_all add: example_fleet_def example_fleet_7_def)
  from AdvanceTime_cleans_up_vessels [OF AdvanceTime_example_fleet d s mono_example_physics r]
  obtain p1 where
    p1: "CleanUpVessels example_fleet = Some p1"
    "vessels p1 = filter (\<lambda>gv. fst gv \<in> kept_vessels example_fleet) (vessels example_fleet)"
    "unsynchronized_vessels p1 =
       unsynchronized_vessels example_fleet -
         (fst ` set (vessels example_fleet) - kept_vessels example_fleet)"
    and k: "kept_vessels example_fleet_7 = {}"
    by (elim exE conjE) (rule that)
  from p1(2) have "map fst (vessels p1) = [''w'']" by (simp add: example_fleet_def)
  moreover from p1(3) have "unsynchronized_vessels p1 = {''w''}"
    by (auto simp: example_fleet_def)
  ultimately have x: "\<exists>p1. CleanUpVessels example_fleet = Some p1 \<and>
      map fst (vessels p1) = [''w''] \<and> unsynchronized_vessels p1 = {''w''}"
    using p1(1) by (intro exI conjI)
  from AdvanceTime_example_fleet d e(1) e(2) mono_example_physics r e(3) k x
  show ?thesis by (intro conjI)
qed

subsection \<open>Rendering\<close>



lemma transforming_iterator_times [simp]:
  "map fst (transforming_iterator f tr) = map fst tr"
  by (simp add: transforming_iterator_def comp_def)


lemma length_render_segments [simp]:
  "length (render_segments f ss) = length ss - 1"
  by (induction f ss rule: render_segments.induct) simp_all





subsection \<open>The conversions between AliceSun and Barycentric\<close>

lemma permutation_inverse [simp]:
  "permutation_apply kSunLookingGlass
     (permutation_apply (Inverse_permutation kSunLookingGlass) x) = x"
  by (cases x) (simp add: kSunLookingGlass_def)












subsection \<open>Writing a plugin and reading it back\<close>

lemma insert_key_last:
  "\<forall>k' \<in> set (map fst m). k' < k \<Longrightarrow> insert_key k v m = m @ [(k, v)]"
  by (induction k v m rule: insert_key.induct) auto

lemma map_of_None_greater:
  "\<forall>k' \<in> set (map fst m). k' < k \<Longrightarrow> map_of m (k::'k::linorder) = None"
  by (induction m) auto

lemma emplace_last:
  "\<forall>k' \<in> set (map fst m). k' < k \<Longrightarrow> emplace k v m = (m @ [(k, v)], True)"
  by (simp add: emplace_def map_of_None_greater insert_key_last)

lemma fold_emplace_sorted:
  "sorted_wrt (<) (map fst acc @ map key xs) \<Longrightarrow>
   fold (\<lambda>x acc. fst (emplace (key x) (val x) acc)) xs acc = acc @ map (\<lambda>x. (key x, val x)) xs"
proof (induction xs arbitrary: acc)
  case Nil
  then show ?case by simp
next
  case (Cons x xs)
  from Cons.prems have "\<forall>k' \<in> set (map fst acc). k' < key x"
    by (auto simp: sorted_wrt_append)
  then have e: "emplace (key x) (val x) acc = (acc @ [(key x, val x)], True)"
    by (rule emplace_last)
  from Cons.prems have "sorted_wrt (<) (map fst (acc @ [(key x, val x)]) @ map key xs)"
    by simp
  from Cons.IH [OF this] e show ?case by simp
qed

lemma modify_not_key:
  "k \<notin> fst ` set m \<Longrightarrow> modify k f m = m"
  by (induction m) (auto simp: modify_def)

lemma modify_middle:
  "k \<notin> fst ` set xs \<Longrightarrow> k \<notin> fst ` set ys \<Longrightarrow>
   modify k f (xs @ (k, v) # ys) = xs @ (k, f v) # ys"
  using modify_not_key [of k xs f] modify_not_key [of k ys f]
  by (simp add: modify_def)

lemma sorted_wrt_less_distinct:
  "sorted_wrt (<) (xs :: 'a::linorder list) \<Longrightarrow> distinct xs"
  by (induction xs) auto

lemma for_each_Cons_Some:
  "body x s = Some s' \<Longrightarrow> for_each body (x # xs) s = for_each body xs s'"
  by simp

lemma those_map_Some:
  "(\<And>x. x \<in> set xs \<Longrightarrow> f x = Some (g x)) \<Longrightarrow> those (map f xs) = Some (map g xs)"
  by (induction xs) simp_all

lemma strip_parent_None: "c_parent c = None \<Longrightarrow> c\<lparr>c_parent := None\<rparr> = c"
  by (cases c) simp

lemma restore_parent: "c_parent c = Some j \<Longrightarrow> c\<lparr>c_parent := Some j\<rparr> = c"
  by (cases c) simp

lemma map_of_keys_iff: "map_of m k \<noteq> None \<longleftrightarrow> k \<in> fst ` set m"
  by (simp add: map_of_eq_None_iff)

lemma read_parents:
  fixes msg :: "Index \<times> Celestial \<Rightarrow> CelestialMessage"
  assumes msg: "\<And>ic. cm_index (msg ic) = fst ic" "\<And>ic. cm_parent_index (msg ic) = c_parent (snd ic)"
  shows "distinct (map fst (done @ rest)) \<Longrightarrow>
     (\<forall>ic \<in> set rest. \<forall>j. c_parent (snd ic) = Some j \<longrightarrow> j \<in> fst ` set (done @ rest)) \<Longrightarrow>
     for_each (\<lambda>cm cs.
                   case cm_parent_index cm of
                     None \<Rightarrow> Some cs
                   | Some i \<Rightarrow>
                       if map_of cs (cm_index cm) = None \<or> map_of cs i = None then None
                       else Some (modify (cm_index cm) (\<lambda>c. c\<lparr>c_parent := Some i\<rparr>) cs))
        (map msg rest) (done @ map (\<lambda>ic. (fst ic, (snd ic)\<lparr>c_parent := None\<rparr>)) rest) =
       Some (done @ rest)"
proof (induction rest arbitrary: "done")
  case Nil
  then show ?case by simp
next
  case (Cons ic rest)
  obtain i c where ic: "ic = (i, c)" by (cases ic)
  let ?strip = "\<lambda>ic. (fst ic, (snd ic)\<lparr>c_parent := None\<rparr>)"
  let ?L = "done @ map ?strip (ic # rest)"
  have "map fst ?L = map fst (done @ ic # rest)" by (simp add: comp_def)
  then have "set (map fst ?L) = set (map fst (done @ ic # rest))" by (rule arg_cong)
  then have keys: "fst ` set ?L = fst ` set (done @ ic # rest)"
    by (simp only: set_map)
  from Cons.prems(1) have d': "distinct (map fst ((done @ [ic]) @ rest))" by simp
  from Cons.prems(2) have p': "\<forall>ic' \<in> set rest. \<forall>j. c_parent (snd ic') = Some j \<longrightarrow>
      j \<in> fst ` set ((done @ [ic]) @ rest)" by auto
  let ?B = "\<lambda>cm cs.
                   case cm_parent_index cm of
                     None \<Rightarrow> Some cs
                   | Some i \<Rightarrow>
                       if map_of cs (cm_index cm) = None \<or> map_of cs i = None then None
                       else Some (modify (cm_index cm) (\<lambda>c. c\<lparr>c_parent := Some i\<rparr>) cs)"
  have IH: "for_each ?B (map msg rest) ((done @ [ic]) @ map ?strip rest) = Some ((done @ [ic]) @ rest)"
    by (rule Cons.IH [OF d' p'])
  have step: "?B (msg ic) ?L = Some ((done @ [ic]) @ map ?strip rest)"
  proof (cases "c_parent c")
    case None
    then have "?strip ic = ic" by (simp add: ic strip_parent_None)
    then have "?L = (done @ [ic]) @ map ?strip rest" by simp
    with None show ?thesis by (simp add: msg ic)
  next
    case (Some j)
    with Cons.prems(2) have j: "j \<in> fst ` set (done @ ic # rest)" by (simp add: ic)
    have "map fst (map ?strip rest) = map fst rest" by (simp add: comp_def)
    then have "set (map fst (map ?strip rest)) = set (map fst rest)" by (rule arg_cong)
    then have kr: "fst ` set (map ?strip rest) = fst ` set rest" by (simp only: set_map)
    have ni: "i \<notin> fst ` set done" "i \<notin> fst ` set (map ?strip rest)"
      unfolding kr using Cons.prems(1) by (auto simp: ic)
    have m: "modify i (\<lambda>c. c\<lparr>c_parent := Some j\<rparr>) ?L = (done @ [ic]) @ map ?strip rest"
      using modify_middle [OF ni, of "\<lambda>c. c\<lparr>c_parent := Some j\<rparr>" "c\<lparr>c_parent := None\<rparr>"] Some
      by (simp add: ic restore_parent)
    have 1: "map_of ?L i \<noteq> None" unfolding map_of_keys_iff keys by (simp add: ic)
    have 2: "map_of ?L j \<noteq> None" unfolding map_of_keys_iff keys using j by simp
    have "?B (msg ic) ?L = Some (modify i (\<lambda>c. c\<lparr>c_parent := Some j\<rparr>) ?L)"
      using 1 2 Some by (simp add: msg ic del: map_append)
    with m show ?thesis by simp
  qed
  have "for_each ?B (map msg (ic # rest)) ?L = for_each ?B (msg ic # map msg rest) ?L"
    by (simp only: list.map)
  also have "\<dots> = for_each ?B (map msg rest) ((done @ [ic]) @ map ?strip rest)"
    using step by (rule for_each_Cons_Some)
  also have "\<dots> = Some ((done @ [ic]) @ rest)" by (rule IH)
  finally show ?case by simp
qed

lemma read_vessels:
  fixes msg :: "GUID \<times> Vessel \<Rightarrow> VesselMessage" and cs :: "(Index \<times> Celestial) list"
  assumes msg: "\<And>gv. vm_guid (msg gv) = fst gv" "\<And>gv. vm_parent_index (msg gv) = v_parent (snd gv)"
    "\<And>gv. vm_dirty (msg gv) = (fst gv \<in> dirty)"
    "\<And>gv. gv \<in> set all \<Longrightarrow> v_ReadFromMessage (vm_vessel (msg gv)) (v_parent (snd gv)) = snd gv"
    "\<And>gv. gv \<in> set all \<Longrightarrow> map_of cs (v_parent (snd gv)) \<noteq> None"
  shows "sorted_wrt (<) (map fst (done @ rest)) \<Longrightarrow> set rest \<subseteq> set all \<Longrightarrow>
     for_each (\<lambda>vm vd.
                   if map_of cs (vm_parent_index vm) = None then None
                   else case emplace (vm_guid vm)
                               (v_ReadFromMessage (vm_vessel vm) (vm_parent_index vm)) (fst vd) of
                          (vs, inserted) \<Rightarrow>
                            if inserted
                            then Some (vs, if vm_dirty vm then insert (vm_guid vm) (snd vd)
                                           else snd vd)
                            else None)
        (map msg rest) (done, D) =
       Some (done @ rest, D \<union> (fst ` set rest \<inter> dirty))"
proof (induction rest arbitrary: "done" D)
  case Nil
  then show ?case by simp
next
  case (Cons gv rest)
  obtain g v where gv: "gv = (g, v)" by (cases gv)
  from Cons.prems(2) have in_all: "gv \<in> set all" by simp
  from Cons.prems(1) have "\<forall>k' \<in> set (map fst done). k' < g"
    by (auto simp: sorted_wrt_append gv)
  then have e: "emplace g v done = (done @ [(g, v)], True)" by (rule emplace_last)
  from Cons.prems have s': "sorted_wrt (<) (map fst ((done @ [gv]) @ rest))"
    and sub: "set rest \<subseteq> set all" by simp_all
  note IH = Cons.IH [OF s' sub]
  have r: "v_ReadFromMessage (vm_vessel (msg gv)) (v_parent v) = v"
    using msg(4) [OF in_all] by (simp add: gv)
  have c: "map_of cs (v_parent v) \<noteq> None" using msg(5) [OF in_all] by (simp add: gv)
  show ?case
  proof (cases "g \<in> dirty")
    case True
    have "D \<union> (fst ` set (gv # rest) \<inter> dirty) = insert g D \<union> (fst ` set rest \<inter> dirty)"
      using True by (auto simp: gv)
    with IH [of "insert g D"] e r c True show ?thesis
      by (simp add: msg(1,2,3) gv)
  next
    case False
    have "D \<union> (fst ` set (gv # rest) \<inter> dirty) = D \<union> (fst ` set rest \<inter> dirty)"
      using False by (auto simp: gv)
    with IH [of D] e r c False show ?thesis
      by (simp add: msg(1,2,3) gv)
  qed
qed


lemma WriteToMessage_Some:
  assumes "WriteToMessage p = Some m"
  shows "\<not> initializing p"
    and "\<forall>ic \<in> set (celestials p). c_history (snd ic) \<noteq> None \<and> c_prolongation (snd ic) \<noteq> None \<and>
           (\<forall>j. c_parent (snd ic) = Some j \<longrightarrow> j \<in> fst ` set (celestials p))"
    and "\<forall>gv \<in> set (vessels p). is_initialized (snd gv) \<and>
           v_parent (snd gv) \<in> fst ` set (celestials p)"
    and "set (all_bubble_vessels (bubble p)) \<subseteq> fst ` set (vessels p)"
    and "sun p \<in> fst ` set (celestials p)"
proof -
  from assms show ni: "\<not> initializing p" by (auto simp: WriteToMessage_def split: if_splits)
  from assms ni obtain cms vms bm where
    cms: "those (map (\<lambda>ic.
                      do { cm \<leftarrow> c_WriteToMessage (snd ic);
                           parent_index \<leftarrow>
                             (case c_parent (snd ic) of
                                None \<Rightarrow> Some None
                              | Some i \<Rightarrow> if map_of (celestials p) i = None then None
                                          else Some (Some i));
                           Some \<lparr>cm_index = fst ic, cm_celestial = cm,
                                 cm_parent_index = parent_index\<rparr> }) (celestials p)) = Some cms" and
    vms: "those (map (\<lambda>gv.
                      do { vm \<leftarrow> v_WriteToMessage (snd gv);
                           if map_of (celestials p) (v_parent (snd gv)) = None then None
                           else Some \<lparr>vm_guid = fst gv, vm_vessel = vm,
                                      vm_parent_index = v_parent (snd gv),
                                      vm_dirty = is_dirty p (fst gv)\<rparr> }) (vessels p)) = Some vms" and
    bm: "b_WriteToMessage (\<lambda>g. map_of (vessels p) g \<noteq> None) (bubble p) = Some bm" and
    sun: "map_of (celestials p) (sun p) \<noteq> None"
    by (auto simp: WriteToMessage_def bind_eq_Some_conv split: if_splits)
  show "\<forall>ic \<in> set (celestials p). c_history (snd ic) \<noteq> None \<and> c_prolongation (snd ic) \<noteq> None \<and>
           (\<forall>j. c_parent (snd ic) = Some j \<longrightarrow> j \<in> fst ` set (celestials p))"
  proof
    fix ic assume "ic \<in> set (celestials p)"
    with cms have "\<exists>y. do { cm \<leftarrow> c_WriteToMessage (snd ic);
                           parent_index \<leftarrow>
                             (case c_parent (snd ic) of
                                None \<Rightarrow> Some None
                              | Some i \<Rightarrow> if map_of (celestials p) i = None then None
                                          else Some (Some i));
                           Some \<lparr>cm_index = fst ic, cm_celestial = cm,
                                 cm_parent_index = parent_index\<rparr> } = Some y"
      unfolding those_eq_Some by (metis (no_types, lifting) imageE image_eqI list.set_map)
    then show "c_history (snd ic) \<noteq> None \<and> c_prolongation (snd ic) \<noteq> None \<and>
           (\<forall>j. c_parent (snd ic) = Some j \<longrightarrow> j \<in> fst ` set (celestials p))"
      by (auto simp: bind_eq_Some_conv c_WriteToMessage_def map_of_keys_iff [symmetric]
          split: option.splits if_splits)
  qed
  show "\<forall>gv \<in> set (vessels p). is_initialized (snd gv) \<and>
           v_parent (snd gv) \<in> fst ` set (celestials p)"
  proof
    fix gv assume "gv \<in> set (vessels p)"
    with vms have "\<exists>y. do { vm \<leftarrow> v_WriteToMessage (snd gv);
                           if map_of (celestials p) (v_parent (snd gv)) = None then None
                           else Some \<lparr>vm_guid = fst gv, vm_vessel = vm,
                                      vm_parent_index = v_parent (snd gv),
                                      vm_dirty = is_dirty p (fst gv)\<rparr> } = Some y"
      unfolding those_eq_Some by (metis (no_types, lifting) imageE image_eqI list.set_map)
    then show "is_initialized (snd gv) \<and> v_parent (snd gv) \<in> fst ` set (celestials p)"
      by (auto simp: bind_eq_Some_conv v_WriteToMessage_def is_initialized_def
          map_of_keys_iff [symmetric] split: option.splits if_splits)
  qed
  from bm have "list_all (\<lambda>g. map_of (vessels p) g \<noteq> None) (all_bubble_vessels (bubble p))"
    by (simp add: b_WriteToMessage_def split: if_splits)
  then show "set (all_bubble_vessels (bubble p)) \<subseteq> fst ` set (vessels p)"
    unfolding list_all_iff map_of_keys_iff by blast
  from sun show "sun p \<in> fst ` set (celestials p)" unfolding map_of_keys_iff .
qed

lemma round_trip:
  assumes ni: "\<not> initializing p"
    and sc: "sorted_wrt (<) (map fst (celestials p))"
    and sv: "sorted_wrt (<) (map fst (vessels p))"
    and cel: "\<forall>ic \<in> set (celestials p). c_history (snd ic) \<noteq> None \<and> c_prolongation (snd ic) \<noteq> None \<and>
           (\<forall>j. c_parent (snd ic) = Some j \<longrightarrow> j \<in> fst ` set (celestials p))"
    and ves: "\<forall>gv \<in> set (vessels p). is_initialized (snd gv) \<and>
           v_parent (snd gv) \<in> fst ` set (celestials p)"
    and bub: "set (all_bubble_vessels (bubble p)) \<subseteq> fst ` set (vessels p)"
    and sun: "sun p \<in> fst ` set (celestials p)"
    and uns: "unsynchronized_vessels p =
                fst ` set (filter (\<lambda>gv. \<not> is_synchronized (snd gv)) (vessels p))"
    and dirty: "dirty_vessels p \<subseteq> fst ` set (vessels p)"
  shows "\<exists>m. WriteToMessage p = Some m \<and> ReadFromMessage m = Some (p\<lparr>kept_vessels := {}\<rparr>)"
proof -
  define cmsg where "cmsg = (\<lambda>ic :: Index \<times> Celestial.
      \<lparr>cm_index = fst ic,
       cm_celestial = (c_body (snd ic), the (c_history (snd ic)), the (c_prolongation (snd ic))),
       cm_parent_index = c_parent (snd ic)\<rparr>)"
  define vmsg where "vmsg = (\<lambda>gv :: GUID \<times> Vessel.
      \<lparr>vm_guid = fst gv, vm_vessel = (v_history (snd gv), the (v_prolongation (snd gv))),
       vm_parent_index = v_parent (snd gv), vm_dirty = (fst gv \<in> dirty_vessels p)\<rparr>)"
  define m where "m = \<lparr>m_celestial = map cmsg (celestials p), m_vessel = map vmsg (vessels p),
      m_bubble = bubble p, m_planetarium_rotation = planetarium_rotation p,
      m_current_time = current_time p, m_sun_index = sun p\<rparr>"
  have w1: "those (map (\<lambda>ic.
                      do { cm \<leftarrow> c_WriteToMessage (snd ic);
                           parent_index \<leftarrow>
                             (case c_parent (snd ic) of
                                None \<Rightarrow> Some None
                              | Some i \<Rightarrow> if map_of (celestials p) i = None then None
                                          else Some (Some i));
                           Some \<lparr>cm_index = fst ic, cm_celestial = cm,
                                 cm_parent_index = parent_index\<rparr> }) (celestials p)) =
            Some (map cmsg (celestials p))"
  proof (rule those_map_Some)
    fix ic assume "ic \<in> set (celestials p)"
    with cel have "c_history (snd ic) \<noteq> None" "c_prolongation (snd ic) \<noteq> None"
      "\<forall>j. c_parent (snd ic) = Some j \<longrightarrow> map_of (celestials p) j \<noteq> None"
      unfolding map_of_keys_iff by blast+
    then show "do { cm \<leftarrow> c_WriteToMessage (snd ic);
                           parent_index \<leftarrow>
                             (case c_parent (snd ic) of
                                None \<Rightarrow> Some None
                              | Some i \<Rightarrow> if map_of (celestials p) i = None then None
                                          else Some (Some i));
                           Some \<lparr>cm_index = fst ic, cm_celestial = cm,
                                 cm_parent_index = parent_index\<rparr> } = Some (cmsg ic)"
      by (auto simp: c_WriteToMessage_def cmsg_def split: option.splits)
  qed
  have w2: "those (map (\<lambda>gv.
                      do { vm \<leftarrow> v_WriteToMessage (snd gv);
                           if map_of (celestials p) (v_parent (snd gv)) = None then None
                           else Some \<lparr>vm_guid = fst gv, vm_vessel = vm,
                                      vm_parent_index = v_parent (snd gv),
                                      vm_dirty = is_dirty p (fst gv)\<rparr> }) (vessels p)) =
            Some (map vmsg (vessels p))"
  proof (rule those_map_Some)
    fix gv assume "gv \<in> set (vessels p)"
    with ves have "v_prolongation (snd gv) \<noteq> None" "map_of (celestials p) (v_parent (snd gv)) \<noteq> None"
      unfolding map_of_keys_iff is_initialized_def by blast+
    then show "do { vm \<leftarrow> v_WriteToMessage (snd gv);
                           if map_of (celestials p) (v_parent (snd gv)) = None then None
                           else Some \<lparr>vm_guid = fst gv, vm_vessel = vm,
                                      vm_parent_index = v_parent (snd gv),
                                      vm_dirty = is_dirty p (fst gv)\<rparr> } = Some (vmsg gv)"
      by (auto simp: v_WriteToMessage_def vmsg_def is_dirty_def)
  qed
  have known: "list_all (\<lambda>g. map_of (vessels p) g \<noteq> None) (all_bubble_vessels (bubble p))"
    using bub unfolding list_all_iff map_of_keys_iff by blast
  have w3: "b_WriteToMessage (\<lambda>g. map_of (vessels p) g \<noteq> None) (bubble p) = Some (bubble p)"
    using known by (simp add: b_WriteToMessage_def del: not_None_eq)
  have sun': "map_of (celestials p) (sun p) \<noteq> None" using sun unfolding map_of_keys_iff .
  have W: "WriteToMessage p = Some m"
    unfolding WriteToMessage_def using ni sun' by (simp add: w1 w2 w3 m_def del: not_None_eq)
  \<comment> \<open>reading\<close>
  let ?strip = "\<lambda>ic :: Index \<times> Celestial. (fst ic, (snd ic)\<lparr>c_parent := None\<rparr>)"
  have cs0: "fold (\<lambda>cm cs. fst (emplace (cm_index cm) (c_ReadFromMessage (cm_celestial cm)) cs))
                      (map cmsg (celestials p)) [] = map ?strip (celestials p)"
  proof -
    have "sorted_wrt (<) (map fst [] @ map cm_index (map cmsg (celestials p)))"
      using sc by (simp add: cmsg_def comp_def)
    from fold_emplace_sorted [where key = cm_index and val = "\<lambda>cm. c_ReadFromMessage (cm_celestial cm)",
        OF this]
    have "fold (\<lambda>cm cs. fst (emplace (cm_index cm) (c_ReadFromMessage (cm_celestial cm)) cs))
                      (map cmsg (celestials p)) [] =
          map (\<lambda>x. (cm_index x, c_ReadFromMessage (cm_celestial x))) (map cmsg (celestials p))"
      by simp
    also have "\<dots> = map ?strip (celestials p)"
    proof (simp only: map_map, rule map_cong [OF refl])
      fix ic assume "ic \<in> set (celestials p)"
      with cel obtain h pr where "c_history (snd ic) = Some h" "c_prolongation (snd ic) = Some pr"
        by auto
      then show "((\<lambda>x. (cm_index x, c_ReadFromMessage (cm_celestial x))) \<circ> cmsg) ic = ?strip ic"
        by (cases "snd ic") (simp add: cmsg_def c_ReadFromMessage_def)
    qed
    finally show ?thesis .
  qed
  have dc: "distinct (map fst (celestials p))"
    using sc by (rule sorted_wrt_less_distinct)
  have cs: "for_each (\<lambda>cm cs.
                   case cm_parent_index cm of
                     None \<Rightarrow> Some cs
                   | Some i \<Rightarrow>
                       if map_of cs (cm_index cm) = None \<or> map_of cs i = None then None
                       else Some (modify (cm_index cm) (\<lambda>c. c\<lparr>c_parent := Some i\<rparr>) cs))
                 (map cmsg (celestials p)) (map ?strip (celestials p)) = Some (celestials p)"
    using read_parents [of cmsg "[]" "celestials p"] dc cel
    by (simp add: cmsg_def)
  have vd: "for_each (\<lambda>vm vd.
                   if map_of (celestials p) (vm_parent_index vm) = None then None
                   else case emplace (vm_guid vm)
                               (v_ReadFromMessage (vm_vessel vm) (vm_parent_index vm)) (fst vd) of
                          (vs, inserted) \<Rightarrow>
                            if inserted
                            then Some (vs, if vm_dirty vm then insert (vm_guid vm) (snd vd)
                                           else snd vd)
                            else None)
                 (map vmsg (vessels p)) ([], {}) = Some (vessels p, dirty_vessels p)"
  proof -
    have r: "v_ReadFromMessage (vm_vessel (vmsg gv)) (v_parent (snd gv)) = snd gv"
      if "gv \<in> set (vessels p)" for gv
    proof -
      from that ves obtain pr where "v_prolongation (snd gv) = Some pr"
        by (auto simp: is_initialized_def)
      then show ?thesis by (cases "snd gv") (simp add: vmsg_def v_ReadFromMessage_def)
    qed
    have c: "map_of (celestials p) (v_parent (snd gv)) \<noteq> None" if "gv \<in> set (vessels p)" for gv
      using that ves unfolding map_of_keys_iff by blast
    have "{} \<union> (fst ` set (vessels p) \<inter> dirty_vessels p) = dirty_vessels p"
      using dirty by auto
    with read_vessels [of vmsg "dirty_vessels p" "vessels p" "celestials p" "[]" "vessels p" "{}"]
      r c sv
    show ?thesis by (simp add: vmsg_def)
  qed
  have b: "b_ReadFromMessage (\<lambda>g. map_of (vessels p) g \<noteq> None) (bubble p) = Some (bubble p)"
    using known by (simp add: b_ReadFromMessage_def del: not_None_eq)
  have P: "Plugin_of_parts (vessels p) (celestials p) (dirty_vessels p) (bubble p)
             (planetarium_rotation p) (current_time p) (sun p) = Some (p\<lparr>kept_vessels := {}\<rparr>)"
    using sun' ni uns by (cases p) (simp add: Plugin_of_parts_def EndInitialization_def)
  have R: "ReadFromMessage m = Some (p\<lparr>kept_vessels := {}\<rparr>)"
    unfolding ReadFromMessage_def by (simp add: m_def cs0 cs vd b P del: not_None_eq)
  from W R show ?thesis by blast
qed


lemmas serialization_defs =
  WriteToMessage_def ReadFromMessage_def c_WriteToMessage_def c_ReadFromMessage_def
  v_WriteToMessage_def v_ReadFromMessage_def b_WriteToMessage_def b_ReadFromMessage_def
  all_bubble_vessels_def Plugin_of_parts_def EndInitialization_def

lemma example_restored_read:
  "Option.bind (WriteToMessage example_flight) ReadFromMessage = Some example_restored"
  by (auto simp: serialization_defs eval_defs example_flight_def example_restored_def)

lemma AdvanceTime_example_restored:
  "AdvanceTime example_physics 5 0 example_restored = Some example_restored_5"
  by (simp add: eval_defs example_restored_def example_restored_5_def)

text \<open>
  C2, as the code has it.  The message does not hold \<^verbatim>\<open>kept_vessels_\<close>, and the plugin
  read from it keeps no vessel.  A plugin whose initialization has ended, whose
  celestials all have a history, a prolongation and, when they have a parent, a parent
  that the plugin owns, whose vessels are all initialized with a parent that the
  plugin owns, whose bubble and whose dirty set hold only vessels that the plugin
  owns, and whose unsynchronized set holds exactly the vessels without a history, is
  written to a message, and the message is read as that plugin with its set of kept
  vessels emptied: the same time, rotation, sun, celestials, vessels, dirty and
  unsynchronized sets and bubble.  What any sequence of operations returns from the
  plugin read is then what it returns from the original once its kept set is emptied.
  The two maps are \<^verbatim>\<open>std::map\<close>s, so that their keys increase strictly.
\<close>

theorem WriteToMessage_then_ReadFromMessage:
  assumes "\<not> initializing p"
    and "sorted_wrt (<) (map fst (celestials p))"
    and "sorted_wrt (<) (map fst (vessels p))"
    and "\<forall>ic \<in> set (celestials p). c_history (snd ic) \<noteq> None \<and> c_prolongation (snd ic) \<noteq> None \<and>
           (\<forall>j. c_parent (snd ic) = Some j \<longrightarrow> j \<in> fst ` set (celestials p))"
    and "\<forall>gv \<in> set (vessels p). is_initialized (snd gv) \<and>
           v_parent (snd gv) \<in> fst ` set (celestials p)"
    and "set (all_bubble_vessels (bubble p)) \<subseteq> fst ` set (vessels p)"
    and "sun p \<in> fst ` set (celestials p)"
    and "unsynchronized_vessels p =
                fst ` set (filter (\<lambda>gv. \<not> is_synchronized (snd gv)) (vessels p))"
    and "dirty_vessels p \<subseteq> fst ` set (vessels p)"
  shows "\<exists>m p'. WriteToMessage p = Some m \<and> ReadFromMessage m = Some p' \<and>
           p' = p\<lparr>kept_vessels := {}\<rparr> \<and>
           current_time p' = current_time p \<and>
           planetarium_rotation p' = planetarium_rotation p \<and> sun p' = sun p \<and>
           celestials p' = celestials p \<and> vessels p' = vessels p \<and>
           dirty_vessels p' = dirty_vessels p \<and>
           unsynchronized_vessels p' = unsynchronized_vessels p \<and>
           bubble p' = bubble p \<and> initializing p' = initializing p \<and>
           kept_vessels p' = {} \<and>
           (\<forall>\<Phi> calls. for_each (step \<Phi>) calls p' =
                       for_each (step \<Phi>) calls (p\<lparr>kept_vessels := {}\<rparr>))"
proof -
  from round_trip [OF assms] obtain m where
    "WriteToMessage p = Some m" "ReadFromMessage m = Some (p\<lparr>kept_vessels := {}\<rparr>)"
    by blast
  then show ?thesis
    by (intro exI [of _ m] exI [of _ "p\<lparr>kept_vessels := {}\<rparr>"]) simp
qed

theorem WriteToMessage_then_ReadFromMessage_witness:
  "\<not> initializing example_flight \<and>
   map fst (celestials example_flight) = [0] \<and>
   map fst (vessels example_flight) = [''v''] \<and>
   kept_vessels example_flight = {''v''} \<and>
   (\<exists>m. WriteToMessage example_flight = Some m \<and>
        ReadFromMessage m = Some (example_flight\<lparr>kept_vessels := {}\<rparr>)) \<and>
   example_flight\<lparr>kept_vessels := {}\<rparr> = example_restored"
proof -
  have 1: "\<not> initializing example_flight" by (simp add: example_flight_def)
  have 2: "sorted_wrt (<) (map fst (celestials example_flight))" by (simp add: example_flight_def)
  have 3: "sorted_wrt (<) (map fst (vessels example_flight))" by (simp add: example_flight_def)
  have 4: "\<forall>ic \<in> set (celestials example_flight).
           c_history (snd ic) \<noteq> None \<and> c_prolongation (snd ic) \<noteq> None \<and>
           (\<forall>j. c_parent (snd ic) = Some j \<longrightarrow> j \<in> fst ` set (celestials example_flight))"
    by (simp add: example_flight_def example_sun_def)
  have 5: "\<forall>gv \<in> set (vessels example_flight). is_initialized (snd gv) \<and>
           v_parent (snd gv) \<in> fst ` set (celestials example_flight)"
    by (simp add: example_flight_def is_initialized_def)
  have 6: "set (all_bubble_vessels (bubble example_flight)) \<subseteq> fst ` set (vessels example_flight)"
    by (simp add: example_flight_def all_bubble_vessels_def bubble_vessels_def new_PhysicsBubble_def)
  have 7: "sun example_flight \<in> fst ` set (celestials example_flight)"
    by (simp add: example_flight_def)
  have 8: "unsynchronized_vessels example_flight =
                fst ` set (filter (\<lambda>gv. \<not> is_synchronized (snd gv)) (vessels example_flight))"
    by (simp add: example_flight_def is_synchronized_def)
  have 9: "dirty_vessels example_flight \<subseteq> fst ` set (vessels example_flight)"
    by (simp add: example_flight_def)
  from WriteToMessage_then_ReadFromMessage [OF 1 2 3 4 5 6 7 8 9]
  have r: "\<exists>m. WriteToMessage example_flight = Some m \<and>
        ReadFromMessage m = Some (example_flight\<lparr>kept_vessels := {}\<rparr>)"
    by blast
  have e: "map fst (celestials example_flight) = [0]" "map fst (vessels example_flight) = [''v'']"
    "kept_vessels example_flight = {''v''}"
    "example_flight\<lparr>kept_vessels := {}\<rparr> = example_restored"
    by (simp_all add: example_flight_def example_restored_def)
  from 1 e(1) e(2) e(3) r e(4) show ?thesis by (intro conjI)
qed

text \<open>
  C2 as stated fails: the plugin read back does not behave as the original.  In the
  flight the vessel is kept; after \<^verbatim>\<open>AdvanceTime\<close> to 5 the original returns its offset
  from its parent, while the plugin read back has removed it, and \<^verbatim>\<open>VesselFromParent\<close>
  is a fatal error.
\<close>

theorem restored_plugin_forgets_kept_vessels:
  "\<not> initializing example_flight \<and>
   Option.bind (WriteToMessage example_flight) ReadFromMessage = Some example_restored \<and>
   Option.bind (AdvanceTime example_physics 5 0 example_flight)
     (VesselFromParent example_physics ''v'') =
     Some (RelativeDegreesOfFreedom (R3 1 5 0) (R3 0 1 0)) \<and>
   AdvanceTime example_physics 5 0 example_restored = Some example_restored_5 \<and>
   vessels example_restored_5 = [] \<and>
   Option.bind (AdvanceTime example_physics 5 0 example_restored)
     (VesselFromParent example_physics ''v'') = None"
proof -
  have 1: "\<not> initializing example_flight" by (simp add: example_flight_def)
  have 2: "Option.bind (AdvanceTime example_physics 5 0 example_flight)
     (VesselFromParent example_physics ''v'') =
     Some (RelativeDegreesOfFreedom (R3 1 5 0) (R3 0 1 0))"
    unfolding AdvanceTime_example_5
    by (simp add: VesselFromParent_def eval_defs example_flight_5_def dof_minus_def)
  have 3: "vessels example_restored_5 = []" by (simp add: example_restored_5_def)
  have 4: "Option.bind (AdvanceTime example_physics 5 0 example_restored)
     (VesselFromParent example_physics ''v'') = None"
    unfolding AdvanceTime_example_restored
    by (simp add: VesselFromParent_def example_restored_5_def find_vessel_by_guid_or_die_def)
  from 1 example_restored_read 2 AdvanceTime_example_restored 3 4 show ?thesis
    by (intro conjI)
qed

end
